theory Spec2Isabelle
  imports Complex_Main
begin

section \<open>Errors and the response side of the request pipeline (lib/api.ts)\<close>

text \<open>
  Every failure of the client is a JavaScript \<open>Error\<close> that carries a message. The
  constructors below name the messages the source throws; \<open>message\<close> gives the text.
  \<open>ConnectionTestFailed e\<close> is the error built by \<open>testConnection\<close> from the message of
  the error \<open>e\<close> it caught, \<open>InvalidDuration\<close> the one thrown by \<open>parseDuration\<close> with the
  text it was given, \<open>InvalidInput\<close> the one thrown by \<open>securelyProcessInput\<close>.
\<close>

datatype error =
    AuthenticationFailed
  | AccessDenied
  | RateLimited
  | NotFound
  | ServerError
  | Generic
  | NoRunningTimer
  | ConnectionTestFailed error
  | InvalidDuration string
  | InvalidInput

fun message :: "error \<Rightarrow> string" where
  "message AuthenticationFailed = ''Authentication failed. Please check your API key.''"
| "message AccessDenied = ''Access denied. Check your permissions.''"
| "message RateLimited = ''Rate limit exceeded. Please try again later.''"
| "message NotFound = ''Resource not found.''"
| "message ServerError = ''Server error. Please try again later.''"
| "message Generic = ''Request failed. Please check your connection and try again.''"
| "message NoRunningTimer = ''No running timer found''"
| "message (ConnectionTestFailed e) = ''Connection test failed: '' @ message e"
| "message (InvalidDuration duration) =
     ''Invalid duration format: '' @ duration
       @ ''. Use formats like: 1h, 30m, 1h30m, 1.5h, or 90''"
| "message InvalidInput = ''Input contains potentially dangerous content''"

text \<open>
  What the HTTP library hands to the response interceptor: a response, or a rejection
  whose \<open>error.response?.status\<close> is a status code or undefined (no response at all:
  network failure, timeout, a request interceptor that threw).
\<close>

datatype 'a axios_result = Fulfilled 'a | Rejected "int option"

text \<open>The rejection handler of the response interceptor (api.ts, lines 47-71).\<close>

definition classify :: "int option \<Rightarrow> error" where
  "classify status =
     (if status = Some 401 then AuthenticationFailed
      else if status = Some 403 then AccessDenied
      else if status = Some 429 then RateLimited
      else if status = Some 404 then NotFound
      else if (case status of None \<Rightarrow> False | Some n \<Rightarrow> n \<ge> 500) then ServerError
      else Generic)"

definition response_interceptor :: "'a axios_result \<Rightarrow> error + 'a" where
  "response_interceptor r =
     (case r of Fulfilled response \<Rightarrow> Inr response | Rejected status \<Rightarrow> Inl (classify status))"

section \<open>JavaScript text primitives\<close>

text \<open>
  A text is a list of characters; the model covers the code units 0 to 255 (Latin-1).
  \<open>is_space\<close> is the white space and the line terminators of ECMAScript in that range,
  which \<open>trim\<close> and the class \<open>\s\<close> use. \<open>toLowerCase\<close> maps the upper-case letters of
  the range to their lower-case forms.
\<close>

definition code :: "char \<Rightarrow> nat" where
  "code c = of_char c"

definition is_space :: "char \<Rightarrow> bool" where
  "is_space c = (code c \<in> {9, 10, 11, 12, 13, 32, 160})"

definition trim :: "string \<Rightarrow> string" where
  "trim s = rev (dropWhile is_space (rev (dropWhile is_space s)))"

definition is_digit :: "char \<Rightarrow> bool" where
  "is_digit c = (48 \<le> code c \<and> code c \<le> 57)"

definition is_upper :: "char \<Rightarrow> bool" where
  "is_upper c = (65 \<le> code c \<and> code c \<le> 90)"

definition is_lower :: "char \<Rightarrow> bool" where
  "is_lower c = (97 \<le> code c \<and> code c \<le> 122)"

definition is_alnum :: "char \<Rightarrow> bool" where
  "is_alnum c = (is_lower c \<or> is_upper c \<or> is_digit c)"

text \<open>
  Matching a letter of a pattern under the flag \<open>i\<close>: among the Latin-1 characters only the
  two ASCII cases of the letter match, so the text is compared after \<open>ascii_lower\<close>.
\<close>

definition ascii_lower :: "char \<Rightarrow> char" where
  "ascii_lower c = (if is_upper c then char_of (code c + 32) else c)"

definition toLowerCase :: "string \<Rightarrow> string" where
  "toLowerCase s =
     map (\<lambda>c. if is_upper c \<or> (192 \<le> code c \<and> code c \<le> 222 \<and> code c \<noteq> 215)
               then char_of (code c + 32) else c) s"

definition is_word :: "char \<Rightarrow> bool" where
  "is_word c = (is_alnum c \<or> code c = 95)"

definition starts_with :: "string \<Rightarrow> string \<Rightarrow> bool" where
  "starts_with p s = (take (length p) s = p)"

definition starts_with_ci :: "string \<Rightarrow> string \<Rightarrow> bool" where
  "starts_with_ci p s = (map ascii_lower (take (length p) s) = p)"

section \<open>\<open>Date.prototype.toISOString\<close> (used at api.ts, line 177)\<close>

text \<open>
  \<open>new Date().toISOString()\<close> writes the clock reading \<open>t\<close> (milliseconds since the epoch) as
  \<open>YYYY-MM-DDTHH:mm:ss.sssZ\<close> in UTC.
\<close>

text \<open>Decimal digits of a number, lowest digit last.\<close>

definition digit_char :: "int \<Rightarrow> char" where
  "digit_char k = char_of (48 + k mod 10)"

definition two_digits :: "int \<Rightarrow> string" where
  "two_digits n = [digit_char (n div 10), digit_char n]"

definition three_digits :: "int \<Rightarrow> string" where
  "three_digits n = [digit_char (n div 100), digit_char (n div 10), digit_char n]"

definition four_digits :: "int \<Rightarrow> string" where
  "four_digits n = [digit_char (n div 1000), digit_char (n div 100), digit_char (n div 10), digit_char n]"

definition six_digits :: "int \<Rightarrow> string" where
  "six_digits n = [digit_char (n div 100000), digit_char (n div 10000)] @ four_digits n"

text \<open>
  The calendar date of a day number (days since 1970-01-01) in the proleptic Gregorian
  calendar. Days are counted from 0000-03-01, so that a leap day is the last day of its
  year: \<open>doe\<close> is the day within the 400-year era of 146097 days, \<open>cen\<close> the century of
  36524 days within it (the era has one day more than four centuries), \<open>doc\<close> the day
  within the century, made of cycles of 1461 days of four years each; \<open>doy\<close> is the day
  within the year that starts on 1 March, which \<open>month_day\<close> turns into month and day.
\<close>

definition month_day :: "int \<Rightarrow> int \<times> int" where
  "month_day doy =
     (if doy < 31 then (3, doy + 1)
      else if doy < 61 then (4, doy - 30)
      else if doy < 92 then (5, doy - 60)
      else if doy < 122 then (6, doy - 91)
      else if doy < 153 then (7, doy - 121)
      else if doy < 184 then (8, doy - 152)
      else if doy < 214 then (9, doy - 183)
      else if doy < 245 then (10, doy - 213)
      else if doy < 275 then (11, doy - 244)
      else if doy < 306 then (12, doy - 274)
      else if doy < 337 then (1, doy - 305)
      else (2, doy - 336))"

definition civil_from_days :: "int \<Rightarrow> int \<times> int \<times> int" where
  "civil_from_days day =
     (let z = day + 719468;
          era = z div 146097;
          doe = z mod 146097;
          cen = min 3 (doe div 36524);
          doc = doe - 36524 * cen;
          yr = min 3 (doc mod 1461 div 365);
          doy = doc mod 1461 - 365 * yr;
          y = 400 * era + 100 * cen + 4 * (doc div 1461) + yr;
          (m, d) = month_day doy
      in (if m \<le> 2 then y + 1 else y, m, d))"

text \<open>
  The year has four digits from 0 to 9999 and otherwise a sign and six digits. A clock
  reading is within 8.64e15 ms of the epoch, where six digits are enough.
\<close>

definition year_text :: "int \<Rightarrow> string" where
  "year_text y =
     (if 0 \<le> y \<and> y \<le> 9999 then four_digits y
      else if y < 0 then CHR ''-'' # six_digits (- y)
      else CHR ''+'' # six_digits y)"

definition toISOString :: "int \<Rightarrow> string" where
  "toISOString t =
     (let (y, m, d) = civil_from_days (t div 86400000);
          ms = t mod 86400000
      in year_text y @ ''-'' @ two_digits m @ ''-'' @ two_digits d @ ''T''
           @ two_digits (ms div 3600000) @ '':'' @ two_digits (ms div 60000 mod 60) @ '':''
           @ two_digits (ms div 1000 mod 60) @ ''.'' @ three_digits (ms mod 1000) @ ''Z'')"

text \<open>
  The ISO-8601 form of a UTC timestamp with milliseconds: \<open>D\<close> in the pattern stands for a
  decimal digit, every other character for itself; month, day, hour, minute and second
  are within their calendar ranges.
\<close>

fun has_shape :: "string \<Rightarrow> string \<Rightarrow> bool" where
  "has_shape [] [] = True"
| "has_shape (p # ps) (c # cs) = ((if p = CHR ''D'' then is_digit c else c = p) \<and> has_shape ps cs)"
| "has_shape _ _ = False"

definition digit_value :: "char \<Rightarrow> int" where
  "digit_value c = int (code c) - 48"

definition number_at :: "nat \<Rightarrow> string \<Rightarrow> int" where
  "number_at i s = 10 * digit_value (s ! i) + digit_value (s ! Suc i)"

definition calendar_fields :: "string \<Rightarrow> bool" where
  "calendar_fields s =
     (1 \<le> number_at 1 s \<and> number_at 1 s \<le> 12
      \<and> 1 \<le> number_at 4 s \<and> number_at 4 s \<le> 31
      \<and> number_at 7 s \<le> 23 \<and> number_at 10 s \<le> 59 \<and> number_at 13 s \<le> 59)"

definition iso_8601 :: "string \<Rightarrow> bool" where
  "iso_8601 s =
     (if has_shape ''DDDD-DD-DDTDD:DD:DD.DDDZ'' s then calendar_fields (drop 4 s)
      else if has_shape ''+DDDDDD-DD-DDTDD:DD:DD.DDDZ'' s
              \<or> has_shape ''-DDDDDD-DD-DDTDD:DD:DD.DDDZ'' s then calendar_fields (drop 7 s)
      else False)"

section \<open>The data of a time entry, as \<open>stopTimer\<close> reads it\<close>

text \<open>
  A timestamp received from the service is modelled by the instant it denotes
  (milliseconds since the epoch). The field \<open>timeInterval.end\<close> is such a timestamp, null
  or undefined; the test \<open>!entry.timeInterval.end\<close> is true for null, undefined and the
  empty text, none of which denotes an instant: all three are \<open>None\<close> here. The end that
  \<open>stopTimer\<close> submits is the text that \<open>toISOString\<close> produces.
  Identifiers are texts, and an optional text is falsy when it is missing or empty.
\<close>

record time_interval =
  interval_start :: int
  interval_end :: "int option"

record time_entry =
  entry_id :: string
  description :: "string option"
  timeInterval :: time_interval
  projectId :: "string option"
  taskId :: "string option"
  tagIds :: "string list option"
  billable :: bool

record project =
  project_id :: string
  project_name :: string

text \<open>The object \<open>stopData\<close> sent by the update call (api.ts, lines 175-183).\<close>

record stop_data =
  stop_start :: int
  stop_end :: string
  stop_billable :: bool
  stop_description :: string
  stop_projectId :: "string option"
  stop_taskId :: "string option"
  stop_tagIds :: "string list"

text \<open>\<open>x || null\<close> and \<open>x || ''\<close> on an optional text, \<open>x || []\<close> on an optional array.\<close>

definition truthy :: "string option \<Rightarrow> bool" where
  "truthy x = (case x of None \<Rightarrow> False | Some s \<Rightarrow> s \<noteq> [])"

definition or_null :: "string option \<Rightarrow> string option" where
  "or_null x = (if truthy x then x else None)"

definition or_empty :: "string option \<Rightarrow> string" where
  "or_empty x = (case x of None \<Rightarrow> [] | Some s \<Rightarrow> s)"

definition or_nil :: "string list option \<Rightarrow> string list" where
  "or_nil x = (case x of None \<Rightarrow> [] | Some ts \<Rightarrow> ts)"

section \<open>The remote service and the calls issued to it\<close>

text \<open>
  The remote service answers each call with an \<open>axios_result\<close>. The calls a procedure
  issues are recorded in order, so that "issues no update call" can be stated.
\<close>

record user =
  user_id :: string
  user_name :: string
  user_email :: string

record workspace =
  workspace_id :: string
  workspace_name :: string

record remote =
  get_user :: "user axios_result"
  get_workspaces :: "workspace list axios_result"
  get_time_entries :: "string \<Rightarrow> string \<Rightarrow> time_entry list axios_result"
  get_projects :: "string \<Rightarrow> project list axios_result"
  put_time_entry :: "string \<Rightarrow> string \<Rightarrow> stop_data \<Rightarrow> time_entry axios_result"

datatype call =
    GetTimeEntries string string
  | GetProjects string
  | PutTimeEntry string string stop_data

fun is_update :: "call \<Rightarrow> bool" where
  "is_update (PutTimeEntry _ _ _) = True"
| "is_update _ = False"

fun is_project_fetch :: "call \<Rightarrow> bool" where
  "is_project_fetch (GetProjects _) = True"
| "is_project_fetch _ = False"

section \<open>The domain client (api.ts, lines 78-130)\<close>

text \<open>
  Each operation awaits one call of the HTTP client, whose promise has gone through the
  response interceptor, and returns \<open>response.data\<close>. Only \<open>testConnection\<close> has a
  \<open>try\<close>/\<open>catch\<close> of its own: it throws a new error made from the message it caught.
\<close>

definition testConnection :: "remote \<Rightarrow> error + user" where
  "testConnection srv =
     (case response_interceptor (get_user srv) of
        Inr response \<Rightarrow> Inr response
      | Inl e \<Rightarrow> Inl (ConnectionTestFailed e))"


definition getWorkspaces :: "remote \<Rightarrow> error + workspace list" where
  "getWorkspaces srv = response_interceptor (get_workspaces srv)"

definition getProjects :: "remote \<Rightarrow> string \<Rightarrow> error + project list" where
  "getProjects srv workspaceId = response_interceptor (get_projects srv workspaceId)"

definition getTimeEntries :: "remote \<Rightarrow> string \<Rightarrow> string \<Rightarrow> error + time_entry list" where
  "getTimeEntries srv workspaceId userId =
     response_interceptor (get_time_entries srv workspaceId userId)"

section \<open>\<open>ClockifyAPI.stopTimer\<close> (api.ts, lines 152-190)\<close>

definition running :: "time_entry \<Rightarrow> bool" where
  "running entry = (interval_end (timeInterval entry) = None)"

text \<open>
  Lines 162-172: the default project. The result is the project id to use and the calls
  issued. A failed fetch is caught and ignored.
\<close>

definition resolve_project :: "remote \<Rightarrow> string \<Rightarrow> time_entry \<Rightarrow> string option \<times> call list" where
  "resolve_project srv workspaceId runningEntry =
     (if \<not> truthy (projectId runningEntry) then
        (case getProjects srv workspaceId of
           Inr (p # _) \<Rightarrow> (Some (project_id p), [GetProjects workspaceId])
         | Inr [] \<Rightarrow> (projectId runningEntry, [GetProjects workspaceId])
         | Inl _ \<Rightarrow> (projectId runningEntry, [GetProjects workspaceId]))
      else (projectId runningEntry, []))"

definition make_stop_data :: "time_entry \<Rightarrow> string option \<Rightarrow> int \<Rightarrow> stop_data" where
  "make_stop_data runningEntry pid now =
     \<lparr> stop_start = interval_start (timeInterval runningEntry),
       stop_end = toISOString now,
       stop_billable = billable runningEntry,
       stop_description = or_empty (description runningEntry),
       stop_projectId = or_null pid,
       stop_taskId = or_null (taskId runningEntry),
       stop_tagIds = or_nil (tagIds runningEntry) \<rparr>"

text \<open>
  \<open>now\<close> is the reading of the wall clock taken by \<open>new Date()\<close> at line 177. The result
  is the outcome of the procedure and the calls it issued, in order.
\<close>

definition stopTimer :: "remote \<Rightarrow> int \<Rightarrow> string \<Rightarrow> string \<Rightarrow> (error + time_entry) \<times> call list" where
  "stopTimer srv now workspaceId userId =
     (case getTimeEntries srv workspaceId userId of
        Inl e \<Rightarrow> (Inl e, [GetTimeEntries workspaceId userId])
      | Inr timeEntries \<Rightarrow>
          (case find running timeEntries of
             None \<Rightarrow> (Inl NoRunningTimer, [GetTimeEntries workspaceId userId])
           | Some runningEntry \<Rightarrow>
               (let (pid, fetches) = resolve_project srv workspaceId runningEntry;
                    stopData = make_stop_data runningEntry pid now
                in (response_interceptor
                      (put_time_entry srv workspaceId (entry_id runningEntry) stopData),
                    GetTimeEntries workspaceId userId # fetches
                      @ [PutTimeEntry workspaceId (entry_id runningEntry) stopData]))))"

section \<open>\<open>isValidApiKey\<close> (lib/simple-config.ts, lines 421-444) and \<open>authCommands.login\<close> (unnamed/part_001, lines 8-85)\<close>

text \<open>The pattern \<open>/(.)\1{10,}/\<close>: a character other than a line terminator, then ten more of it.\<close>

fun repeated_run :: "string \<Rightarrow> bool" where
  "repeated_run [] = False"
| "repeated_run (c # cs) =
     ((code c \<noteq> 10 \<and> code c \<noteq> 13 \<and> 10 \<le> length (takeWhile (\<lambda>d. d = c) cs))
      \<or> repeated_run cs)"

definition isValidApiKey :: "string \<Rightarrow> bool" where
  "isValidApiKey apiKey =
     (if length apiKey < 40 \<or> length apiKey > 60 then False
      else if \<not> (apiKey \<noteq> [] \<and> list_all is_alnum apiKey) then False
      else \<not> ((starts_with_ci ''test'' apiKey \<or> starts_with_ci ''fake'' apiKey
                 \<or> starts_with_ci ''demo'' apiKey \<or> starts_with_ci ''sample'' apiKey)
              \<or> (starts_with ''1234'' apiKey \<or> starts_with ''abcd'' apiKey
                 \<or> starts_with ''0000'' apiKey)
              \<or> repeated_run apiKey))"

text \<open>
  The local state \<open>login\<close> touches: the key file written by \<open>setApiKey\<close> and removed by
  \<open>removeApiKey\<close>, and the entry \<open>workspaceId\<close> of the configuration written by
  \<open>configManager.set\<close>. File operations are taken to succeed.
\<close>

record local_state =
  api_key_file :: "string option"
  config_workspaceId :: "string option"

definition setApiKey :: "string \<Rightarrow> local_state \<Rightarrow> local_state" where
  "setApiKey apiKey st = st\<lparr> api_key_file := Some apiKey \<rparr>"

definition removeApiKey :: "local_state \<Rightarrow> local_state" where
  "removeApiKey st = st\<lparr> api_key_file := None \<rparr>"

definition set_workspaceId :: "string \<Rightarrow> local_state \<Rightarrow> local_state" where
  "set_workspaceId v st = st\<lparr> config_workspaceId := Some v \<rparr>"

text \<open>
  What \<open>login\<close> does, in order. \<open>Reported\<close> is a failure line written to the console
  (without its leading symbol), \<open>Exited\<close> is \<open>process.exit\<close>.
\<close>

datatype login_event =
    KeyStored string
  | ConnectionTested
  | WorkspacesFetched
  | WorkspaceSet string
  | KeyRemoved
  | Reported string
  | Exited nat

text \<open>
  \<open>key\<close> is \<open>options.key\<close>; \<open>prompted\<close> is the answer of the prompt, used when no key was
  given. The result is the local state afterwards and the events.
\<close>

definition resolved_key :: "string option \<Rightarrow> string \<Rightarrow> string" where
  "resolved_key key prompted = (if truthy key then or_empty key else trim prompted)"

definition login :: "remote \<Rightarrow> string option \<Rightarrow> string \<Rightarrow> local_state \<Rightarrow> local_state \<times> login_event list" where
  "login srv key prompted st =
     (let apiKey = resolved_key key prompted in
      if apiKey = [] then (st, [Reported ''No API key provided'', Exited 1])
      else if \<not> isValidApiKey apiKey then (st, [Reported ''Invalid API key format'', Exited 1])
      else
        (let st1 = setApiKey apiKey st in
         case testConnection srv of
           Inl e \<Rightarrow>
             (removeApiKey st1,
              [KeyStored apiKey, ConnectionTested, KeyRemoved,
               Reported (''Authentication failed: '' @ message e), Exited 1])
         | Inr user \<Rightarrow>
             (case getWorkspaces srv of
                Inl e \<Rightarrow>
                  (removeApiKey st1,
                   [KeyStored apiKey, ConnectionTested, WorkspacesFetched, KeyRemoved,
                    Reported (''Authentication failed: '' @ message e), Exited 1])
              | Inr workspaces \<Rightarrow>
                  (if length workspaces = 1
                   then (set_workspaceId (workspace_id (hd workspaces)) st1,
                         [KeyStored apiKey, ConnectionTested, WorkspacesFetched,
                          WorkspaceSet (workspace_id (hd workspaces))])
                   else (st1, [KeyStored apiKey, ConnectionTested, WorkspacesFetched])))))"

section \<open>JavaScript numbers\<close>

text \<open>
  A number is an IEEE 754 double. The numbers \<open>parseDuration\<close> computes are not negative
  and never NaN, so a number is a rational that a double represents, or \<open>Infinity\<close>.
  \<open>fl x\<close> is the double nearest to the rational \<open>x \<ge> 0\<close>, ties to the even significand:
  53 significant bits, smallest exponent -1022, overflow to \<open>Infinity\<close>.
\<close>

datatype number = Num rat | Infinity

function bit_length :: "int \<Rightarrow> nat" where
  "bit_length n = (if n \<le> 0 then 0 else Suc (bit_length (n div 2)))"
  by pat_completeness auto
termination
  by (relation "measure nat") auto

declare bit_length.simps [simp del]

text \<open>The integer \<open>e\<close> with \<open>2 ^ e \<le> x < 2 ^ (e + 1)\<close>, for \<open>x > 0\<close>.\<close>

definition floor_log2 :: "rat \<Rightarrow> int" where
  "floor_log2 x =
     (let (p, q) = quotient_of x;
          k = int (bit_length p) - int (bit_length q)
      in if power_int 2 k \<le> x then k else k - 1)"

definition round_half_even :: "rat \<Rightarrow> int" where
  "round_half_even q =
     (let f = \<lfloor>q\<rfloor>; d = q - of_int f
      in if d < 1 / 2 then f else if 1 / 2 < d then f + 1 else if even f then f else f + 1)"

definition fl :: "rat \<Rightarrow> number" where
  "fl x =
     (if x \<le> 0 then Num 0
      else (let e = max (floor_log2 x) (- 1022);
                u = power_int 2 (e - 52);
                r = of_int (round_half_even (x / u)) * u
            in if 2 ^ 1024 \<le> r then Infinity else Num r))"

text \<open>\<open>a * 60\<close>, \<open>a + b\<close> and \<open>Math.round(a)\<close> on such numbers.\<close>

fun times60 :: "number \<Rightarrow> number" where
  "times60 (Num a) = fl (a * 60)"
| "times60 Infinity = Infinity"

fun num_plus :: "number \<Rightarrow> number \<Rightarrow> number" where
  "num_plus (Num a) (Num b) = fl (a + b)"
| "num_plus _ _ = Infinity"

fun Math_round :: "number \<Rightarrow> number" where
  "Math_round (Num a) = Num (of_int \<lfloor>a + 1 / 2\<rfloor>)"
| "Math_round Infinity = Infinity"

text \<open>
  \<open>parseInt\<close> on a text of decimal digits, and \<open>parseFloat\<close> on digits with an optional
  fraction: the number nearest to the value written. (ECMAScript lets an engine replace
  the digits after the twentieth significant one by zeros; the model rounds the value
  as written.)
\<close>

definition digits_val :: "string \<Rightarrow> int" where
  "digits_val ds = foldl (\<lambda>acc c. 10 * acc + (int (code c) - 48)) 0 ds"

definition decimal_value :: "string \<Rightarrow> rat" where
  "decimal_value t =
     (let ip = takeWhile is_digit t; fp = takeWhile is_digit (drop 1 (dropWhile is_digit t))
      in of_int (digits_val ip) + of_int (digits_val fp) / 10 ^ length fp)"

definition parseInt :: "string \<Rightarrow> number" where
  "parseInt ds = fl (of_int (digits_val ds))"

definition parseFloat :: "string \<Rightarrow> number" where
  "parseFloat t = fl (decimal_value t)"

section \<open>\<open>parseDuration\<close> (lib/simple-config.ts, lines 349-384)\<close>

text \<open>\<open>/^\d+$/\<close>\<close>

definition all_digits :: "string \<Rightarrow> bool" where
  "all_digits t = (t \<noteq> [] \<and> list_all is_digit t)"

text \<open>
  \<open>/^(\d+(?:\.\d+)?)h?$/\<close>: the result is the text of group 1, which is never empty when
  the pattern matches (so the test \<open>decimalHoursMatch[1]\<close> of the source holds).
\<close>

definition decimal_hours_match :: "string \<Rightarrow> string option" where
  "decimal_hours_match t =
     (let d1 = takeWhile is_digit t; r1 = dropWhile is_digit t in
      if d1 = [] then None
      else if r1 \<noteq> [] \<and> hd r1 = CHR ''.'' then
        (let d2 = takeWhile is_digit (tl r1); r2 = dropWhile is_digit (tl r1) in
         if d2 \<noteq> [] \<and> (r2 = [] \<or> r2 = ''h'') then Some (d1 @ ''.'' @ d2) else None)
      else if r1 = [] \<or> r1 = ''h'' then Some d1 else None)"

text \<open>
  \<open>/^(?:(\d+)h)?(?:(\d+)m)?$/\<close>: the result is the pair of the groups 1 and 2, each
  undefined (\<open>None\<close>) when its part is absent.
\<close>

definition hours_minutes_match :: "string \<Rightarrow> (string option \<times> string option) option" where
  "hours_minutes_match t =
     (let d1 = takeWhile is_digit t; r1 = dropWhile is_digit t in
      if d1 \<noteq> [] \<and> r1 \<noteq> [] \<and> hd r1 = CHR ''h'' then
        (let d2 = takeWhile is_digit (tl r1); r2 = dropWhile is_digit (tl r1) in
         if d2 \<noteq> [] \<and> r2 = ''m'' then Some (Some d1, Some d2)
         else if tl r1 = [] then Some (Some d1, None)
         else None)
      else if d1 \<noteq> [] \<and> r1 = ''m'' then Some (None, Some d1)
      else if t = [] then Some (None, None)
      else None)"

text \<open>\<open>/^(\d+)m$/\<close> and \<open>/^(\d+)h$/\<close>\<close>

definition digits_then :: "char \<Rightarrow> string \<Rightarrow> string option" where
  "digits_then unit t =
     (if takeWhile is_digit t \<noteq> [] \<and> dropWhile is_digit t = [unit]
      then Some (takeWhile is_digit t) else None)"

text \<open>\<open>g || '0'\<close>\<close>

definition or_zero :: "string option \<Rightarrow> string" where
  "or_zero g = (if truthy g then or_empty g else ''0'')"

definition parseDuration :: "string \<Rightarrow> error + number" where
  "parseDuration duration =
     (let normalizedDuration = trim (toLowerCase duration) in
      if all_digits normalizedDuration then Inr (parseInt normalizedDuration)
      else
        (case decimal_hours_match normalizedDuration of
           Some g1 \<Rightarrow> Inr (Math_round (times60 (parseFloat g1)))
         | None \<Rightarrow>
             (case hours_minutes_match normalizedDuration of
                Some (g1, g2) \<Rightarrow>
                  Inr (num_plus (times60 (parseInt (or_zero g1))) (parseInt (or_zero g2)))
              | None \<Rightarrow>
                  (case digits_then CHR ''m'' normalizedDuration of
                     Some g1 \<Rightarrow> Inr (parseInt g1)
                   | None \<Rightarrow>
                       (case digits_then CHR ''h'' normalizedDuration of
                          Some g1 \<Rightarrow> Inr (times60 (parseInt g1))
                        | None \<Rightarrow> Inl (InvalidDuration duration))))))"

text \<open>The texts that one of the five patterns of \<open>parseDuration\<close> matches.\<close>

definition recognized :: "string \<Rightarrow> bool" where
  "recognized t =
     (all_digits t \<or> decimal_hours_match t \<noteq> None \<or> hours_minutes_match t \<noteq> None
      \<or> digits_then CHR ''m'' t \<noteq> None \<or> digits_then CHR ''h'' t \<noteq> None)"

section \<open>\<open>sanitizeInput\<close> (lib/simple-config.ts, lines 389-400)\<close>

text \<open>The class \<open>[<>&"'`]\<close> of the first \<open>replace\<close>.\<close>

definition dangerous_char :: "char \<Rightarrow> bool" where
  "dangerous_char c = (code c \<in> {60, 62, 38, 34, 39, 96})"

text \<open>
  The second and the third \<open>replace\<close> have the patterns \<open>/\x00-\x1f/g\<close> and
  \<open>/\x7f-\x9f/g\<close>. Outside a character class the hyphen is an ordinary character, so each
  pattern matches a sequence of three characters. \<open>remove_triple a b c\<close> deletes the
  occurrences of the sequence \<open>a b c\<close> from left to right, as \<open>replace\<close> with the flag
  \<open>g\<close> does.
\<close>

fun remove_triple :: "char \<Rightarrow> char \<Rightarrow> char \<Rightarrow> string \<Rightarrow> string" where
  "remove_triple a b c (x # y # z # rest) =
     (if x = a \<and> y = b \<and> z = c then remove_triple a b c rest
      else x # remove_triple a b c (y # z # rest))"
| "remove_triple a b c xs = xs"

definition sanitizeInput :: "string \<Rightarrow> string" where
  "sanitizeInput input =
     take 1000
       (remove_triple (CHR 0x7F) CHR ''-'' (CHR 0x9F)
         (remove_triple (CHR 0x00) CHR ''-'' (CHR 0x1F)
           (filter (\<lambda>c. \<not> dangerous_char c) (trim input))))"

text \<open>The characters of the ranges \<open>\x00-\x1f\<close> and \<open>\x7f-\x9f\<close>.\<close>

definition control_char :: "char \<Rightarrow> bool" where
  "control_char c = (code c \<le> 31 \<or> (127 \<le> code c \<and> code c \<le> 159))"

section \<open>\<open>validateSecureInput\<close> and \<open>securelyProcessInput\<close> (lib/simple-config.ts, lines 152-242)\<close>

text \<open>
  The five entries of \<open>DANGEROUS_PATTERNS\<close>, all with the flags \<open>g\<close> and \<open>i\<close>:
  \<open>/<script[\s\S]*?<\/script>/\<close>, \<open>/javascript:/\<close>, \<open>/on\w+\s*=/\<close>, \<open>/data:text\/html/\<close>,
  \<open>/vbscript:/\<close>. \<open>match_at p s\<close> is the length of the match of \<open>p\<close> that starts at the
  head of \<open>s\<close>, if there is one; \<open>search m s i\<close> is the end of the leftmost match in \<open>s\<close>,
  where \<open>s\<close> begins at position \<open>i\<close> of the whole text.
\<close>

datatype pattern = Script | Literal string | Handler

fun search :: "(string \<Rightarrow> nat option) \<Rightarrow> string \<Rightarrow> nat \<Rightarrow> nat option" where
  "search m [] i = map_option (\<lambda>n. i + n) (m [])"
| "search m (c # cs) i =
     (case m (c # cs) of Some n \<Rightarrow> Some (i + n) | None \<Rightarrow> search m cs (Suc i))"

definition match_literal :: "string \<Rightarrow> string \<Rightarrow> nat option" where
  "match_literal lit s = (if starts_with_ci lit s then Some (length lit) else None)"

text \<open>\<open>[\s\S]*?\<close> is lazy: the match ends with the first closing tag.\<close>

definition match_script :: "string \<Rightarrow> nat option" where
  "match_script s =
     (if starts_with_ci ''<script'' s
      then map_option (\<lambda>e. 7 + e) (search (match_literal ''</script>'') (drop 7 s) 0)
      else None)"

definition match_handler :: "string \<Rightarrow> nat option" where
  "match_handler s =
     (if starts_with_ci ''on'' s then
        (let w = takeWhile is_word (drop 2 s); r = dropWhile is_word (drop 2 s);
             sp = takeWhile is_space r; r' = dropWhile is_space r
         in if w \<noteq> [] \<and> r' \<noteq> [] \<and> hd r' = CHR ''=''
            then Some (2 + length w + length sp + 1) else None)
      else None)"

fun match_at :: "pattern \<Rightarrow> string \<Rightarrow> nat option" where
  "match_at Script s = match_script s"
| "match_at (Literal lit) s = match_literal lit s"
| "match_at Handler s = match_handler s"

text \<open>
  A regular expression object with the flag \<open>g\<close> keeps \<open>lastIndex\<close> between calls of
  \<open>test\<close>: the search starts there, a match stores its end, a failure stores 0.
\<close>

record regex =
  pat :: pattern
  lastIndex :: nat

definition regex_test :: "regex \<Rightarrow> string \<Rightarrow> bool \<times> regex" where
  "regex_test r s =
     (if length s < lastIndex r then (False, r\<lparr> lastIndex := 0 \<rparr>)
      else (case search (match_at (pat r)) (drop (lastIndex r) s) (lastIndex r) of
              Some e \<Rightarrow> (True, r\<lparr> lastIndex := e \<rparr>)
            | None \<Rightarrow> (False, r\<lparr> lastIndex := 0 \<rparr>)))"

definition DANGEROUS_PATTERNS :: "regex list" where
  "DANGEROUS_PATTERNS =
     map (\<lambda>p. \<lparr> pat = p, lastIndex = 0 \<rparr>)
       [Script, Literal ''javascript:'', Handler, Literal ''data:text/html'',
        Literal ''vbscript:'']"

definition MAX_DESCRIPTION_LENGTH :: nat where
  "MAX_DESCRIPTION_LENGTH = 1000"

text \<open>
  The loop of \<open>validateSecureInput\<close> over the patterns: it stops at the first pattern
  that matches. The result says whether one matched, and gives the patterns with their
  new \<open>lastIndex\<close>.
\<close>

fun test_patterns :: "regex list \<Rightarrow> string \<Rightarrow> bool \<times> regex list" where
  "test_patterns [] s = (False, [])"
| "test_patterns (r # rs) s =
     (case regex_test r s of
        (True, r') \<Rightarrow> (True, r' # rs)
      | (False, r') \<Rightarrow> (case test_patterns rs s of (hit, rs') \<Rightarrow> (hit, r' # rs')))"

definition validateSecureInput :: "regex list \<Rightarrow> string \<Rightarrow> nat \<Rightarrow> bool \<times> regex list" where
  "validateSecureInput rs input maxLength =
     (if maxLength < length input then (False, rs)
      else (case test_patterns rs input of (hit, rs') \<Rightarrow> (\<not> hit, rs')))"

text \<open>The two \<open>replace\<close> calls of \<open>securelyProcessInput\<close>.\<close>

definition strip_control :: "string \<Rightarrow> string" where
  "strip_control input =
     filter (\<lambda>c. \<not> (code c \<le> 8 \<or> code c = 11 \<or> code c = 12 \<or> (14 \<le> code c \<and> code c \<le> 31)
                    \<or> (127 \<le> code c \<and> code c \<le> 159)))
       (filter (\<lambda>c. code c \<noteq> 0) input)"

definition securelyProcessInput :: "regex list \<Rightarrow> string \<Rightarrow> nat \<Rightarrow> (error + string) \<times> regex list" where
  "securelyProcessInput rs input maxLength =
     (let cleaned = trim (strip_control input) in
      case validateSecureInput rs cleaned maxLength of
        (False, rs') \<Rightarrow> (Inl InvalidInput, rs')
      | (True, rs') \<Rightarrow>
          (Inr (if maxLength < length cleaned then take maxLength cleaned else cleaned), rs'))"



section \<open>Pacing in the request interceptor (api.ts, lines 24-31)\<close>

text \<open>
  The interceptor reads the clock (\<open>now\<close>, line 26) and the field \<open>lastRequestTime\<close>. When
  the last request is less than \<open>minRequestInterval\<close> old it awaits
  \<open>sleep(minRequestInterval - timeSinceLastRequest)\<close>; other requests can enter the
  interceptor while it sleeps. Afterwards it stores a second reading of the clock in
  \<open>lastRequestTime\<close> (line 31) without looking at it: that stored reading is the dispatch
  time of the request. Clock readings are integers (milliseconds).

  The state is the field, the requests that sleep (each with the reading it took on
  entry and the delay it asked for) and the dispatch times so far. \<open>Arrive now now'\<close> is a
  request that enters the interceptor: \<open>now\<close> is the reading of line 26, \<open>now'\<close> the reading
  of line 31 in case it does not sleep. \<open>Wake now'\<close> is the end of the sleep of the request
  that has slept longest, with the reading of line 31.
\<close>

definition minRequestInterval :: int where
  "minRequestInterval = 100"

record pacing =
  lastRequestTime :: int
  sleeping :: "(int \<times> int) list"
  dispatched :: "int list"

text \<open>The field \<open>lastRequestTime\<close> starts at 0 (line 10).\<close>

definition initial_pacing :: pacing where
  "initial_pacing = \<lparr> lastRequestTime = 0, sleeping = [], dispatched = [] \<rparr>"

datatype pacing_step = Arrive int int | Wake int

definition arrive :: "int \<Rightarrow> int \<Rightarrow> pacing \<Rightarrow> pacing" where
  "arrive now now' st =
     (let timeSinceLastRequest = now - lastRequestTime st
      in if timeSinceLastRequest < minRequestInterval
         then st\<lparr> sleeping := sleeping st @ [(now, minRequestInterval - timeSinceLastRequest)] \<rparr>
         else st\<lparr> lastRequestTime := now', dispatched := dispatched st @ [now'] \<rparr>)"

definition wake :: "int \<Rightarrow> pacing \<Rightarrow> pacing" where
  "wake now' st =
     (case sleeping st of
        [] \<Rightarrow> st
      | _ # rest \<Rightarrow>
          st\<lparr> lastRequestTime := now', sleeping := rest, dispatched := dispatched st @ [now'] \<rparr>)"

fun run :: "pacing \<Rightarrow> pacing_step list \<Rightarrow> pacing" where
  "run st [] = st"
| "run st (Arrive now now' # steps) = run (arrive now now' st) steps"
| "run st (Wake now' # steps) = run (wake now' st) steps"

text \<open>
  A run in which every request is awaited before the next one is issued (no request
  sleeps when another arrives), the clock does not go back between the two readings of
  a request, and no sleep ends before the delay asked for has passed on the clock.
\<close>

fun awaited_on_time :: "pacing \<Rightarrow> pacing_step list \<Rightarrow> bool" where
  "awaited_on_time st [] = True"
| "awaited_on_time st (Arrive now now' # steps) =
     (sleeping st = [] \<and> now \<le> now' \<and> awaited_on_time (arrive now now' st) steps)"
| "awaited_on_time st (Wake now' # steps) =
     ((case sleeping st of [] \<Rightarrow> False | (now, delay) # _ \<Rightarrow> now + delay \<le> now')
      \<and> awaited_on_time (wake now' st) steps)"

text \<open>Consecutive times at least \<open>minRequestInterval\<close> apart.\<close>

fun spaced :: "int list \<Rightarrow> bool" where
  "spaced (a # b # rest) = (a + minRequestInterval \<le> b \<and> spaced (b # rest))"
| "spaced _ = True"

definition pacing_inv :: "pacing \<Rightarrow> bool" where
  "pacing_inv st =
     (spaced (dispatched st)
      \<and> (dispatched st \<noteq> [] \<longrightarrow> last (dispatched st) = lastRequestTime st)
      \<and> (sleeping st = []
          \<or> (\<exists>now delay. sleeping st = [(now, delay)]
                \<and> now + delay = lastRequestTime st + minRequestInterval)))"

section \<open>Example data\<close>

definition entry_done :: time_entry where
  "entry_done = \<lparr> entry_id = ''e1'', description = Some ''write report'',
     timeInterval = \<lparr> interval_start = 1000, interval_end = Some 2000 \<rparr>,
     projectId = Some ''p1'', taskId = None, tagIds = None, billable = False \<rparr>"

definition entry_open :: time_entry where
  "entry_open = \<lparr> entry_id = ''e2'', description = None,
     timeInterval = \<lparr> interval_start = 5000, interval_end = None \<rparr>,
     projectId = None, taskId = Some ''t1'', tagIds = Some [''g1''], billable = True \<rparr>"

definition entry_open2 :: time_entry where
  "entry_open2 = \<lparr> entry_id = ''e3'', description = Some ''review'',
     timeInterval = \<lparr> interval_start = 6000, interval_end = None \<rparr>,
     projectId = Some ''p7'', taskId = None, tagIds = None, billable = False \<rparr>"

definition example_user :: user where
  "example_user = \<lparr> user_id = ''u1'', user_name = ''Ada'', user_email = ''ada@example.org'' \<rparr>"

definition srv_idle :: remote where
  "srv_idle = \<lparr> get_user = Rejected (Some 401), get_workspaces = Rejected (Some 401),
     get_time_entries = (\<lambda>_ _. Fulfilled [entry_done]),
     get_projects = (\<lambda>_. Fulfilled []),
     put_time_entry = (\<lambda>_ _ _. Rejected None) \<rparr>"

definition srv_busy :: remote where
  "srv_busy = \<lparr> get_user = Fulfilled example_user,
     get_workspaces = Fulfilled [\<lparr> workspace_id = ''w1'', workspace_name = ''Lab'' \<rparr>],
     get_time_entries = (\<lambda>_ _. Fulfilled [entry_done, entry_open, entry_open2]),
     get_projects = (\<lambda>_. Rejected (Some 403)),
     put_time_entry = (\<lambda>_ i sd. Fulfilled (entry_open \<lparr> timeInterval := \<lparr> interval_start = stop_start sd, interval_end = Some 7000 \<rparr> \<rparr>)) \<rparr>"

definition entry_full :: time_entry where
  "entry_full = \<lparr> entry_id = ''e4'', description = Some ''standup'',
     timeInterval = \<lparr> interval_start = 1699999000000, interval_end = None \<rparr>,
     projectId = Some ''p2'', taskId = Some ''t9'', tagIds = Some [''g1'', ''g2''],
     billable = True \<rparr>"

definition entry_ahead :: time_entry where
  "entry_ahead = \<lparr> entry_id = ''e5'', description = Some ''call'',
     timeInterval = \<lparr> interval_start = 1700000005000, interval_end = None \<rparr>,
     projectId = Some ''p2'', taskId = None, tagIds = None, billable = False \<rparr>"

definition srv_review :: remote where
  "srv_review = \<lparr> get_user = Fulfilled example_user,
     get_workspaces = Fulfilled [\<lparr> workspace_id = ''w1'', workspace_name = ''Lab'' \<rparr>],
     get_time_entries = (\<lambda>_ _. Fulfilled [entry_done, entry_full, entry_open]),
     get_projects = (\<lambda>_. Fulfilled []),
     put_time_entry = (\<lambda>_ _ _. Fulfilled entry_full) \<rparr>"

definition srv_ahead :: remote where
  "srv_ahead = \<lparr> get_user = Fulfilled example_user,
     get_workspaces = Fulfilled [\<lparr> workspace_id = ''w1'', workspace_name = ''Lab'' \<rparr>],
     get_time_entries = (\<lambda>_ _. Fulfilled [entry_ahead]),
     get_projects = (\<lambda>_. Fulfilled []),
     put_time_entry = (\<lambda>_ _ _. Fulfilled entry_ahead) \<rparr>"


definition example_steps :: "pacing_step list" where
  "example_steps =
     [Arrive 1700000000000 1700000000000, Arrive 1700000000030 1700000000030,
      Wake 1700000000102, Arrive 1700000000500 1700000000501]"

definition early_steps :: "pacing_step list" where
  "early_steps =
     [Arrive 1793712265123 1793712265123, Arrive 1793712265126 1793712265126,
      Wake 1793712265222]"

definition overlapping_steps :: "pacing_step list" where
  "overlapping_steps =
     [Arrive 1000 1000, Arrive 1001 1001, Arrive 1001 1001, Arrive 1002 1002,
      Wake 1100, Wake 1101, Wake 1102]"


definition example_key :: string where
  "example_key = ''Xk3f9Qm2Lp7Zr4Tn8Vb1Cw6Hy5Jd0Ga2Se9Ui3Oo7Pq4MaB''"

definition fresh_state :: local_state where
  "fresh_state = \<lparr> api_key_file = None, config_workspaceId = None \<rparr>"

section \<open>Helper facts\<close>

lemma code_digit_char: "int (code (digit_char k)) = 48 + k mod 10"
proof -
  have "0 \<le> k mod 10" "k mod 10 < 10" by simp_all
  then have "(48 + k mod 10) mod 256 = 48 + k mod 10" by simp
  then have "of_char (digit_char k) = 48 + k mod 10"
    unfolding digit_char_def by (simp add: of_char_of)
  then show ?thesis
    unfolding code_def by (metis of_char_of of_nat_of_char)
qed

lemma is_digit_digit_char: "is_digit (digit_char k)"
proof -
  have "0 \<le> k mod 10" "k mod 10 < 10" by simp_all
  then show ?thesis unfolding is_digit_def using code_digit_char[of k] by linarith
qed

lemma digit_value_digit_char: "digit_value (digit_char k) = k mod 10"
  by (simp add: digit_value_def code_digit_char)

lemma digit_char_not_sign: "digit_char k \<noteq> CHR ''+''" "digit_char k \<noteq> CHR ''-''"
  using is_digit_digit_char[of k] by (auto simp: is_digit_def code_def)

lemma two_digit_number:
  assumes "0 \<le> n" "n < 100"
  shows "10 * ((n div 10) mod 10) + n mod 10 = (n::int)"
  using assms by presburger

lemma month_day_bounds:
  assumes "0 \<le> doy" "doy \<le> 365" "month_day doy = (m, d)"
  shows "1 \<le> m \<and> m \<le> 12 \<and> 1 \<le> d \<and> d \<le> 31"
  using assms by (auto simp: month_day_def split: if_splits)

lemma day_of_year_bounds:
  fixes doe :: int
  assumes "0 \<le> doe" "doe < 146097"
  defines "doc \<equiv> doe - 36524 * min 3 (doe div 36524)"
  defines "doy \<equiv> doc mod 1461 - 365 * min 3 (doc mod 1461 div 365)"
  shows "0 \<le> doy \<and> doy \<le> 365"
proof -
  define q where "q = doc mod 1461"
  have q: "0 \<le> q" "q < 1461" by (simp_all add: q_def)
  have "365 * (q div 365) \<le> q" by (simp add: q)
  moreover have "q div 365 \<le> 3 \<Longrightarrow> q - 365 * (q div 365) < 365"
    by (metis minus_mult_div_eq_mod pos_mod_bound zero_less_numeral)
  moreover have "q div 365 \<le> 4" using q by simp
  ultimately show ?thesis
    unfolding doy_def q_def[symmetric] using q by (cases "q div 365 \<le> 3") (auto simp: min_def)
qed

lemma civil_from_days_bounds:
  assumes "civil_from_days day = (y, m, d)"
  shows "1 \<le> m \<and> m \<le> 12 \<and> 1 \<le> d \<and> d \<le> 31"
proof -
  define doe where "doe = (day + 719468) mod 146097"
  define doc where "doc = doe - 36524 * min 3 (doe div 36524)"
  define doy where "doy = doc mod 1461 - 365 * min 3 (doc mod 1461 div 365)"
  have "0 \<le> doe" "doe < 146097" by (simp_all add: doe_def)
  then have b: "0 \<le> doy \<and> doy \<le> 365"
    unfolding doy_def doc_def by (rule day_of_year_bounds)
  obtain m' d' where md: "month_day doy = (m', d')" by (cases "month_day doy")
  have "m = m' \<and> d = d'"
    using assms md unfolding civil_from_days_def Let_def doe_def[symmetric] doc_def[symmetric] doy_def[symmetric]
    by (simp split: if_splits)
  then show ?thesis using month_day_bounds[OF _ _ md] b by simp
qed

lemma number_two_digits:
  assumes "0 \<le> n" "n < 100"
  shows "10 * digit_value (digit_char (n div 10)) + digit_value (digit_char n) = n"
  using two_digit_number[OF assms] by (simp add: digit_value_digit_char)

lemma calendar_fields_text:
  assumes "1 \<le> m" "m \<le> 12" "1 \<le> d" "d \<le> 31" "0 \<le> hh" "hh \<le> 23" "0 \<le> mm" "mm \<le> 59"
    "0 \<le> ss" "ss \<le> 59"
  shows "calendar_fields (''-'' @ two_digits m @ ''-'' @ two_digits d @ ''T''
           @ two_digits hh @ '':'' @ two_digits mm @ '':'' @ two_digits ss @ rest)"
  using assms
  by (simp add: calendar_fields_def number_at_def two_digits_def number_two_digits)

lemma shape_text:
  "has_shape ''-DD-DDTDD:DD:DD.DDDZ'' (''-'' @ two_digits m @ ''-'' @ two_digits d @ ''T''
           @ two_digits hh @ '':'' @ two_digits mm @ '':'' @ two_digits ss @ ''.'' @ three_digits ms @ ''Z'')"
  by (simp add: two_digits_def three_digits_def is_digit_digit_char)

lemma toISOString_iso_8601: "iso_8601 (toISOString t)"
proof -
  obtain y m d where c: "civil_from_days (t div 86400000) = (y, m, d)"
    by (cases "civil_from_days (t div 86400000)") auto
  define ms where "ms = t mod 86400000"
  have ms: "0 \<le> ms" "ms < 86400000" by (simp_all add: ms_def)
  define tail where "tail = ''-'' @ two_digits m @ ''-'' @ two_digits d @ ''T''
           @ two_digits (ms div 3600000) @ '':'' @ two_digits (ms div 60000 mod 60) @ '':''
           @ two_digits (ms div 1000 mod 60) @ ''.'' @ three_digits (ms mod 1000) @ ''Z''"
  have t: "toISOString t = year_text y @ tail"
    by (simp add: toISOString_def c ms_def tail_def Let_def)
  have "ms div 3600000 \<le> 23" using ms by simp
  moreover have "0 \<le> ms div 3600000" using ms by simp
  ultimately have f: "calendar_fields tail"
    unfolding tail_def using civil_from_days_bounds[OF c]
    by (intro calendar_fields_text) simp_all
  have s: "has_shape ''-DD-DDTDD:DD:DD.DDDZ'' tail"
    unfolding tail_def by (rule shape_text)
  show ?thesis
  proof (cases "0 \<le> y \<and> y \<le> 9999")
    case True
    then have "has_shape ''DDDD-DD-DDTDD:DD:DD.DDDZ'' (toISOString t)"
      using s by (simp add: t year_text_def four_digits_def is_digit_digit_char)
    moreover have "drop 4 (toISOString t) = tail"
      using True by (simp add: t year_text_def four_digits_def)
    ultimately show ?thesis using f by (simp add: iso_8601_def)
  next
    case False
    then have "has_shape ''+DDDDDD-DD-DDTDD:DD:DD.DDDZ'' (toISOString t)
             \<or> has_shape ''-DDDDDD-DD-DDTDD:DD:DD.DDDZ'' (toISOString t)"
      using s by (simp add: t year_text_def four_digits_def six_digits_def is_digit_digit_char)
    moreover have "drop 7 (toISOString t) = tail"
      using False by (simp add: t year_text_def four_digits_def six_digits_def)
    moreover have "\<not> has_shape ''DDDD-DD-DDTDD:DD:DD.DDDZ'' (toISOString t)"
      using False by (simp add: t year_text_def four_digits_def six_digits_def is_digit_def code_def)
    ultimately show ?thesis using f by (simp add: iso_8601_def)
  qed
qed

lemma response_interceptor_not_NoRunningTimer:
  "response_interceptor r \<noteq> Inl NoRunningTimer"
  by (cases r) (auto simp: response_interceptor_def classify_def)

lemma find_running_None: "find running es = None \<longleftrightarrow> filter running es = []"
  by (induction es) auto

lemma find_running_split:
  "list_all (\<lambda>e. \<not> running e) pre \<Longrightarrow> running r \<Longrightarrow> find running (pre @ r # post) = Some r"
  by (induction pre) auto

lemma filter_update_resolve: "filter is_update (snd (resolve_project srv ws r)) = []"
  by (auto simp: resolve_project_def split: sum.splits list.splits)

lemma stopTimer_found:
  assumes "get_time_entries srv ws u = Fulfilled es" and "find running es = Some r"
  shows "stopTimer srv now ws u =
     (response_interceptor (put_time_entry srv ws (entry_id r)
         (make_stop_data r (fst (resolve_project srv ws r)) now)),
      GetTimeEntries ws u # snd (resolve_project srv ws r)
        @ [PutTimeEntry ws (entry_id r) (make_stop_data r (fst (resolve_project srv ws r)) now)])"
  using assms by (simp add: stopTimer_def getTimeEntries_def response_interceptor_def getTimeEntries_def getProjects_def Let_def split: prod.splits)

text \<open>
  Claim C2. When the entry list was fetched, \<open>stopTimer\<close> fails with \<open>NoRunningTimer\<close>
  exactly when the list has no entry without an end; in that case the only call issued is
  the fetch of the entries: no update call and no fetch of the project list. The failure
  is not one of the errors the response interceptor produces.
\<close>

theorem stopTimer_no_running_timer:
  assumes "get_time_entries srv ws u = Fulfilled es"
  shows "(fst (stopTimer srv now ws u) = Inl NoRunningTimer \<longleftrightarrow> filter running es = [])
       \<and> (filter running es = [] \<longrightarrow>
            snd (stopTimer srv now ws u) = [GetTimeEntries ws u]
          \<and> filter is_update (snd (stopTimer srv now ws u)) = []
          \<and> filter is_project_fetch (snd (stopTimer srv now ws u)) = [])
       \<and> NoRunningTimer \<notin> range classify"
proof -
  have r: "getTimeEntries srv ws u = Inr es"
    using assms by (simp add: response_interceptor_def getTimeEntries_def getProjects_def)
  show ?thesis
  proof (cases "find running es")
    case None
    then have "filter running es = []" by (simp add: find_running_None)
    with None r show ?thesis
      by (auto simp: stopTimer_def classify_def)
  next
    case (Some e)
    then have ne: "filter running es \<noteq> []" using find_running_None[of es] by simp
    have "fst (stopTimer srv now ws u) \<noteq> Inl NoRunningTimer"
      using stopTimer_found[OF assms Some] by (simp add: response_interceptor_not_NoRunningTimer)
    with ne show ?thesis by (auto simp: classify_def)
  qed
qed

theorem stopTimer_no_running_timer_witness:
  "get_time_entries srv_idle ''w1'' ''u1'' = Fulfilled [entry_done]
   \<and> filter running [entry_done] = []
   \<and> stopTimer srv_idle 7000 ''w1'' ''u1'' = (Inl NoRunningTimer, [GetTimeEntries ''w1'' ''u1''])"
  using stopTimer_no_running_timer[of srv_idle "''w1''" "''u1''" "[entry_done]" 7000]
  by (simp add: srv_idle_def entry_done_def running_def stopTimer_def response_interceptor_def getTimeEntries_def getProjects_def)

text \<open>
  Claim C1, as amended. When the fetched list is \<open>pre @ r # post\<close>, every entry of \<open>pre\<close> has
  an end and \<open>r\<close> has none, \<open>stopTimer\<close> issues exactly one update call, the last of its
  calls; it targets the id of \<open>r\<close> and its outcome is the outcome of the procedure. The
  payload copies the start and the billable flag of \<open>r\<close>; its description is that of \<open>r\<close>,
  or the empty text when \<open>r\<close> has none; its project is that of \<open>r\<close> or, when \<open>r\<close> has none,
  the first project of the workspace, if the list can be fetched and is not empty; its
  task is that of \<open>r\<close>, or null when missing or empty; its tags are those of \<open>r\<close>, or the
  empty list. Its end is the text \<open>toISOString now\<close> of the clock reading, which has the
  ISO-8601 form. The instant that the end denotes is at or after the start of \<open>r\<close> whenever
  the clock reading is not before that start.
\<close>

theorem stopTimer_updates_first_running:
  assumes "get_time_entries srv ws u = Fulfilled (pre @ r # post)"
      and "list_all (\<lambda>e. \<not> running e) pre" and "running r"
  shows "\<exists>sd. snd (stopTimer srv now ws u)
               = GetTimeEntries ws u # (if truthy (projectId r) then [] else [GetProjects ws])
                   @ [PutTimeEntry ws (entry_id r) sd]
           \<and> filter is_update (snd (stopTimer srv now ws u)) = [PutTimeEntry ws (entry_id r) sd]
           \<and> fst (stopTimer srv now ws u)
               = response_interceptor (put_time_entry srv ws (entry_id r) sd)
           \<and> stop_start sd = interval_start (timeInterval r)
           \<and> stop_end sd = toISOString now
           \<and> iso_8601 (stop_end sd)
           \<and> stop_billable sd = billable r
           \<and> (\<forall>d. description r = Some d \<longrightarrow> stop_description sd = d)
           \<and> (description r = None \<longrightarrow> stop_description sd = [])
           \<and> (truthy (projectId r) \<longrightarrow> stop_projectId sd = projectId r)
           \<and> (\<not> truthy (projectId r) \<longrightarrow>
                 stop_projectId sd =
                   (case get_projects srv ws of
                      Fulfilled (p # ps) \<Rightarrow> if project_id p = [] then None else Some (project_id p)
                    | Fulfilled [] \<Rightarrow> None
                    | Rejected status \<Rightarrow> None))
           \<and> (\<forall>t. taskId r = Some t \<and> t \<noteq> [] \<longrightarrow> stop_taskId sd = Some t)
           \<and> (taskId r = None \<or> taskId r = Some [] \<longrightarrow> stop_taskId sd = None)
           \<and> (\<forall>ts. tagIds r = Some ts \<longrightarrow> stop_tagIds sd = ts)
           \<and> (tagIds r = None \<longrightarrow> stop_tagIds sd = [])
           \<and> (interval_start (timeInterval r) \<le> now \<longrightarrow> stop_start sd \<le> now)"
proof -
  have f: "find running (pre @ r # post) = Some r"
    using assms(2,3) by (rule find_running_split)
  define pid where "pid = fst (resolve_project srv ws r)"
  define sd where "sd = make_stop_data r pid now"
  have st: "stopTimer srv now ws u =
     (response_interceptor (put_time_entry srv ws (entry_id r) sd),
      GetTimeEntries ws u # snd (resolve_project srv ws r) @ [PutTimeEntry ws (entry_id r) sd])"
    using stopTimer_found[OF assms(1) f] by (simp add: pid_def sd_def)
  have fetches: "snd (resolve_project srv ws r)
      = (if truthy (projectId r) then [] else [GetProjects ws])"
    by (simp add: resolve_project_def split: sum.splits list.splits)
  have p1: "truthy (projectId r) \<Longrightarrow> stop_projectId sd = projectId r"
    by (simp add: sd_def make_stop_data_def pid_def resolve_project_def or_null_def)
  have p2: "\<not> truthy (projectId r) \<Longrightarrow> stop_projectId sd =
                   (case get_projects srv ws of
                      Fulfilled (p # ps) \<Rightarrow> if project_id p = [] then None else Some (project_id p)
                    | Fulfilled [] \<Rightarrow> None
                    | Rejected status \<Rightarrow> None)"
    by (auto simp: sd_def make_stop_data_def pid_def resolve_project_def or_null_def truthy_def
          getProjects_def response_interceptor_def split: axios_result.splits list.splits option.splits)
  have t1: "\<And>t. taskId r = Some t \<Longrightarrow> t \<noteq> [] \<Longrightarrow> stop_taskId sd = Some t"
    by (simp add: sd_def make_stop_data_def or_null_def truthy_def)
  have t2: "taskId r = None \<or> taskId r = Some [] \<Longrightarrow> stop_taskId sd = None"
    by (auto simp: sd_def make_stop_data_def or_null_def truthy_def)
  have e: "stop_end sd = toISOString now"
    by (simp add: sd_def make_stop_data_def)
  have rest: "stop_start sd = interval_start (timeInterval r)" "stop_billable sd = billable r"
    "\<And>d. description r = Some d \<Longrightarrow> stop_description sd = d"
    "description r = None \<Longrightarrow> stop_description sd = []"
    "\<And>ts. tagIds r = Some ts \<Longrightarrow> stop_tagIds sd = ts"
    "tagIds r = None \<Longrightarrow> stop_tagIds sd = []"
    by (simp_all add: sd_def make_stop_data_def or_empty_def or_nil_def)
  have calls: "filter is_update (snd (stopTimer srv now ws u)) = [PutTimeEntry ws (entry_id r) sd]"
    by (simp add: st filter_update_resolve)
  show ?thesis
    apply (rule exI[of _ sd])
    using calls p1 p2 t1 t2 e rest toISOString_iso_8601[of now]
    by (simp add: st fetches)
qed

theorem stopTimer_updates_first_running_witness:
  "get_time_entries srv_review ''w1'' ''u1'' = Fulfilled ([entry_done] @ entry_full # [entry_open])
   \<and> list_all (\<lambda>e. \<not> running e) [entry_done] \<and> running entry_full
   \<and> description entry_full = Some ''standup''
   \<and> interval_start (timeInterval entry_full) \<le> 1700000000000
   \<and> snd (stopTimer srv_review 1700000000000 ''w1'' ''u1'')
       = [GetTimeEntries ''w1'' ''u1'',
          PutTimeEntry ''w1'' ''e4''
            \<lparr> stop_start = 1699999000000, stop_end = ''2023-11-14T22:13:20.000Z'',
              stop_billable = True, stop_description = ''standup'',
              stop_projectId = Some ''p2'', stop_taskId = Some ''t9'',
              stop_tagIds = [''g1'', ''g2''] \<rparr>]"
proof -
  have h1: "get_time_entries srv_review ''w1'' ''u1'' = Fulfilled ([entry_done] @ entry_full # [entry_open])"
    by (simp add: srv_review_def)
  have h2: "list_all (\<lambda>e. \<not> running e) [entry_done]"
    by (simp add: entry_done_def running_def)
  have h3: "running entry_full"
    by (simp add: entry_full_def running_def)
  have iso: "toISOString 1700000000000 = ''2023-11-14T22:13:20.000Z''"
    by code_simp
  have tr: "truthy (projectId entry_full)"
    by (simp add: entry_full_def truthy_def)
  from stopTimer_updates_first_running[OF h1 h2 h3, of 1700000000000] obtain sd where
    c: "snd (stopTimer srv_review 1700000000000 ''w1'' ''u1'')
          = GetTimeEntries ''w1'' ''u1'' # (if truthy (projectId entry_full) then [] else [GetProjects ''w1''])
              @ [PutTimeEntry ''w1'' (entry_id entry_full) sd]"
    and f: "stop_start sd = interval_start (timeInterval entry_full)"
      "stop_end sd = toISOString 1700000000000"
      "stop_billable sd = billable entry_full"
      "\<forall>d. description entry_full = Some d \<longrightarrow> stop_description sd = d"
      "truthy (projectId entry_full) \<longrightarrow> stop_projectId sd = projectId entry_full"
      "\<forall>t. taskId entry_full = Some t \<and> t \<noteq> [] \<longrightarrow> stop_taskId sd = Some t"
      "\<forall>ts. tagIds entry_full = Some ts \<longrightarrow> stop_tagIds sd = ts"
    by blast
  have "sd = \<lparr> stop_start = 1699999000000, stop_end = ''2023-11-14T22:13:20.000Z'',
              stop_billable = True, stop_description = ''standup'',
              stop_projectId = Some ''p2'', stop_taskId = Some ''t9'',
              stop_tagIds = [''g1'', ''g2''] \<rparr>"
    using f tr iso
    by (intro stop_data.equality) (simp_all add: entry_full_def)
  with c tr h1 h2 h3 show ?thesis by (simp add: entry_full_def)
qed

text \<open>
  The claim C1 as stated promises a submitted end at or after the start. The procedure
  compares nothing: for a running entry whose start, as recorded by the service, is five
  seconds after the reading of the local clock, the update call carries the start
  2023-11-14T22:13:25.000Z and the end 2023-11-14T22:13:20.000Z.
\<close>

theorem stopTimer_end_before_start:
  "running entry_ahead
   \<and> snd (stopTimer srv_ahead 1700000000000 ''w1'' ''u1'')
       = [GetTimeEntries ''w1'' ''u1'',
          PutTimeEntry ''w1'' ''e5'' (make_stop_data entry_ahead (Some ''p2'') 1700000000000)]
   \<and> stop_end (make_stop_data entry_ahead (Some ''p2'') 1700000000000)
       = toISOString 1700000000000
   \<and> toISOString 1700000000000 = ''2023-11-14T22:13:20.000Z''
   \<and> stop_start (make_stop_data entry_ahead (Some ''p2'') 1700000000000) = 1700000005000
   \<and> toISOString 1700000005000 = ''2023-11-14T22:13:25.000Z''
   \<and> (1700000000000 :: int) < 1700000005000"
proof -
  have "toISOString 1700000000000 = ''2023-11-14T22:13:20.000Z''"
    by code_simp
  moreover have "toISOString 1700000005000 = ''2023-11-14T22:13:25.000Z''"
    by code_simp
  moreover have "running entry_ahead"
    by (simp add: entry_ahead_def running_def)
  moreover have "snd (stopTimer srv_ahead 1700000000000 ''w1'' ''u1'')
       = [GetTimeEntries ''w1'' ''u1'',
          PutTimeEntry ''w1'' ''e5'' (make_stop_data entry_ahead (Some ''p2'') 1700000000000)]"
    by (simp add: srv_ahead_def stopTimer_def response_interceptor_def getTimeEntries_def
          entry_ahead_def running_def resolve_project_def truthy_def)
  ultimately show ?thesis
    by (simp add: make_stop_data_def entry_ahead_def)
qed

text \<open>
  Claim C8. When the selected running entry has no project, \<open>stopTimer\<close> fetches the
  project list of the workspace between the fetch of the entries and the update. The
  update carries the id of the first project of the list; when the list is empty or the
  fetch fails it carries no project. In every case the update call is issued and its
  outcome is the outcome of the procedure: a failed fetch of the projects does not
  abort the stop.
\<close>

theorem stopTimer_default_project:
  assumes "get_time_entries srv ws u = Fulfilled es" and "find running es = Some r"
      and "\<not> truthy (projectId r)"
  shows "\<exists>sd. stopTimer srv now ws u =
            (response_interceptor (put_time_entry srv ws (entry_id r) sd),
             [GetTimeEntries ws u, GetProjects ws, PutTimeEntry ws (entry_id r) sd])
         \<and> stop_projectId sd =
             (case get_projects srv ws of
                Fulfilled (p # ps) \<Rightarrow> or_null (Some (project_id p))
              | Fulfilled [] \<Rightarrow> None
              | Rejected status \<Rightarrow> None)"
proof -
  let ?sd = "make_stop_data r (fst (resolve_project srv ws r)) now"
  have a: "snd (resolve_project srv ws r) = [GetProjects ws]"
    using assms(3) by (simp add: resolve_project_def split: sum.splits list.splits)
  have b: "stop_projectId ?sd =
             (case get_projects srv ws of
                Fulfilled (p # ps) \<Rightarrow> or_null (Some (project_id p))
              | Fulfilled [] \<Rightarrow> None
              | Rejected status \<Rightarrow> None)"
    using assms(3)
    by (auto simp: make_stop_data_def resolve_project_def response_interceptor_def getTimeEntries_def getProjects_def or_null_def
          split: axios_result.splits list.splits)
  show ?thesis
    using stopTimer_found[OF assms(1,2), of now] a b by (intro exI[of _ ?sd]) simp
qed

theorem stopTimer_default_project_witness:
  "get_time_entries srv_busy ''w1'' ''u1'' = Fulfilled [entry_done, entry_open, entry_open2]
   \<and> find running [entry_done, entry_open, entry_open2] = Some entry_open
   \<and> \<not> truthy (projectId entry_open)
   \<and> get_projects srv_busy ''w1'' = Rejected (Some 403)
   \<and> (\<exists>sd. stopTimer srv_busy 7000 ''w1'' ''u1'' =
            (response_interceptor (put_time_entry srv_busy ''w1'' ''e2'' sd),
             [GetTimeEntries ''w1'' ''u1'', GetProjects ''w1'', PutTimeEntry ''w1'' ''e2'' sd])
          \<and> stop_projectId sd = None)"
  using stopTimer_default_project[of srv_busy "''w1''" "''u1''"
      "[entry_done, entry_open, entry_open2]" entry_open 7000]
  by (simp add: srv_busy_def entry_done_def entry_open_def running_def truthy_def)

lemma spaced_snoc:
  "spaced (ds @ [x]) \<longleftrightarrow> spaced ds \<and> (ds \<noteq> [] \<longrightarrow> last ds + minRequestInterval \<le> x)"
  by (induction ds rule: spaced.induct) auto

lemma spaced_nth: "spaced ds \<Longrightarrow> Suc i < length ds \<Longrightarrow> ds ! i + minRequestInterval \<le> ds ! Suc i"
proof (induction ds arbitrary: i rule: spaced.induct)
  case (1 a b rest)
  then show ?case by (cases i) auto
qed auto

lemma run_spaced:
  "pacing_inv st \<Longrightarrow> awaited_on_time st steps \<Longrightarrow> spaced (dispatched (run st steps))"
proof (induction st steps rule: run.induct)
  case (1 st)
  then show ?case by (simp add: pacing_inv_def)
next
  case (2 st now now' steps)
  then have s: "sleeping st = []" "now \<le> now'" "awaited_on_time (arrive now now' st) steps"
    by simp_all
  have "pacing_inv (arrive now now' st)"
    using "2.prems"(1) s(1,2)
    by (auto simp: pacing_inv_def arrive_def Let_def spaced_snoc)
  then show ?case using "2.IH" s(3) by simp
next
  case (3 st now' steps)
  then obtain now delay where
    s: "sleeping st = [(now, delay)]" "now + delay = lastRequestTime st + minRequestInterval"
      "now + delay \<le> now'" "awaited_on_time (wake now' st) steps"
    by (auto simp: pacing_inv_def split: list.splits)
  have "pacing_inv (wake now' st)"
    using "3.prems"(1) s(1,2,3)
    by (auto simp: pacing_inv_def wake_def spaced_snoc)
  then show ?case using "3.IH" s(4) by simp
qed

text \<open>
  Claim C3, as amended. When every request is awaited before the next is issued and no
  sleep ends early by the clock, the dispatch times of any two consecutive requests are
  at least \<open>minRequestInterval\<close> = 100 ms apart.
\<close>

theorem pacing_when_awaited_on_time:
  assumes "awaited_on_time initial_pacing steps"
      and "Suc i < length (dispatched (run initial_pacing steps))"
  shows "dispatched (run initial_pacing steps) ! Suc i - dispatched (run initial_pacing steps) ! i
           \<ge> minRequestInterval \<and> minRequestInterval = 100"
proof -
  have "pacing_inv initial_pacing" by (simp add: pacing_inv_def initial_pacing_def)
  from spaced_nth[OF run_spaced[OF this assms(1)] assms(2)]
  show ?thesis by (simp add: minRequestInterval_def)
qed

theorem pacing_when_awaited_on_time_witness:
  "awaited_on_time initial_pacing example_steps
   \<and> dispatched (run initial_pacing example_steps)
        = [1700000000000, 1700000000102, 1700000000501]
   \<and> Suc 0 < length (dispatched (run initial_pacing example_steps))
   \<and> dispatched (run initial_pacing example_steps) ! Suc 0
        - dispatched (run initial_pacing example_steps) ! 0 \<ge> minRequestInterval"
proof -
  have a: "awaited_on_time initial_pacing example_steps"
    by (simp add: example_steps_def initial_pacing_def arrive_def wake_def minRequestInterval_def)
  have d: "dispatched (run initial_pacing example_steps)
        = [1700000000000, 1700000000102, 1700000000501]"
    by (simp add: example_steps_def initial_pacing_def arrive_def wake_def minRequestInterval_def)
  have l: "Suc 0 < length (dispatched (run initial_pacing example_steps))" by (simp add: d)
  show ?thesis using pacing_when_awaited_on_time[OF a l] a d l by blast
qed

text \<open>
  The claim C3 as stated has no such provisos. The interceptor sleeps once for the
  remaining time and stores the clock without checking it: when the timer ends 1 ms
  early, two consecutive requests are dispatched 99 ms apart. And requests that are not
  awaited one by one all read the same \<open>lastRequestTime\<close> before any of them writes it:
  they sleep until the same moment and are dispatched 1 ms apart.
\<close>

theorem pacing_gap_below_interval:
  "dispatched (run initial_pacing early_steps) = [1793712265123, 1793712265222]
   \<and> (1793712265222::int) - 1793712265123 < minRequestInterval
   \<and> \<not> awaited_on_time initial_pacing early_steps
   \<and> dispatched (run initial_pacing overlapping_steps) = [1000, 1100, 1101, 1102]
   \<and> (1101::int) - 1100 < minRequestInterval
   \<and> \<not> awaited_on_time initial_pacing overlapping_steps"
  by (simp add: early_steps_def overlapping_steps_def initial_pacing_def arrive_def wake_def
      minRequestInterval_def)





lemma login_valid:
  assumes "isValidApiKey apiKey" and "resolved_key key prompted = apiKey"
  shows "login srv key prompted st =
     (case testConnection srv of
           Inl e \<Rightarrow>
             (removeApiKey (setApiKey apiKey st),
              [KeyStored apiKey, ConnectionTested, KeyRemoved,
               Reported (''Authentication failed: '' @ message e), Exited 1])
         | Inr user \<Rightarrow>
             (case getWorkspaces srv of
                Inl e \<Rightarrow>
                  (removeApiKey (setApiKey apiKey st),
                   [KeyStored apiKey, ConnectionTested, WorkspacesFetched, KeyRemoved,
                    Reported (''Authentication failed: '' @ message e), Exited 1])
              | Inr workspaces \<Rightarrow>
                  (if length workspaces = 1
                   then (set_workspaceId (workspace_id (hd workspaces)) (setApiKey apiKey st),
                         [KeyStored apiKey, ConnectionTested, WorkspacesFetched,
                          WorkspaceSet (workspace_id (hd workspaces))])
                   else (setApiKey apiKey st, [KeyStored apiKey, ConnectionTested, WorkspacesFetched]))))"
proof -
  have "apiKey \<noteq> []" using assms by (auto simp: isValidApiKey_def)
  then show ?thesis using assms
    by (simp add: login_def Let_def)
qed

text \<open>
  Claim C9. When the key given to \<open>login\<close> (or typed at the prompt) is syntactically
  valid, \<open>login\<close> stores it and then tests the connection. If the test fails, the key
  file is removed, the failure is reported and the process exits with code 1. If the
  test succeeds and the list of workspaces has exactly one element, the id of that
  workspace is written to the configuration and the key stays stored.
\<close>

theorem login_check_and_workspace:
  assumes "resolved_key key prompted = apiKey" and "isValidApiKey apiKey"
  shows "(\<forall>e. testConnection srv = Inl e \<longrightarrow>
            api_key_file (fst (login srv key prompted st)) = None
          \<and> snd (login srv key prompted st) =
              [KeyStored apiKey, ConnectionTested, KeyRemoved,
               Reported (''Authentication failed: '' @ message e), Exited 1])
       \<and> (\<forall>user w. testConnection srv = Inr user \<and> getWorkspaces srv = Inr [w] \<longrightarrow>
            config_workspaceId (fst (login srv key prompted st)) = Some (workspace_id w)
          \<and> api_key_file (fst (login srv key prompted st)) = Some apiKey
          \<and> snd (login srv key prompted st) =
              [KeyStored apiKey, ConnectionTested, WorkspacesFetched, WorkspaceSet (workspace_id w)])"
  by (simp add: login_valid[OF assms(2,1)] removeApiKey_def setApiKey_def set_workspaceId_def)

lemma example_key_valid: "isValidApiKey example_key"
  by code_simp

theorem login_check_and_workspace_witness:
  "resolved_key (Some example_key) [] = example_key \<and> isValidApiKey example_key
   \<and> testConnection srv_idle = Inl (ConnectionTestFailed AuthenticationFailed)
   \<and> api_key_file (fst (login srv_idle (Some example_key) [] fresh_state)) = None
   \<and> testConnection srv_busy = Inr example_user
   \<and> getWorkspaces srv_busy = Inr [\<lparr> workspace_id = ''w1'', workspace_name = ''Lab'' \<rparr>]
   \<and> config_workspaceId (fst (login srv_busy (Some example_key) [] fresh_state)) = Some ''w1''
   \<and> api_key_file (fst (login srv_busy (Some example_key) [] fresh_state)) = Some example_key"
proof -
  have k: "resolved_key (Some example_key) [] = example_key"
    by (simp add: resolved_key_def truthy_def or_empty_def example_key_def)
  have a: "testConnection srv_idle = Inl (ConnectionTestFailed AuthenticationFailed)"
    by (simp add: testConnection_def srv_idle_def response_interceptor_def classify_def)
  have b: "testConnection srv_busy = Inr example_user"
    by (simp add: testConnection_def srv_busy_def response_interceptor_def)
  have c: "getWorkspaces srv_busy = Inr [\<lparr> workspace_id = ''w1'', workspace_name = ''Lab'' \<rparr>]"
    by (simp add: getWorkspaces_def srv_busy_def response_interceptor_def)
  show ?thesis
    using login_check_and_workspace[OF k example_key_valid, of srv_idle fresh_state]
      login_check_and_workspace[OF k example_key_valid, of srv_busy fresh_state] a b c k
      example_key_valid
    by simp
qed

section \<open>Facts about numbers and \<open>parseDuration\<close>\<close>

lemma bit_length_bounds:
  "0 < n \<Longrightarrow> 2 ^ (bit_length n - 1) \<le> n \<and> n < 2 ^ bit_length n"
proof (induction n rule: bit_length.induct)
  case (1 n)
  show ?case
  proof (cases "n = 1")
    case True
    then show ?thesis by (simp add: bit_length.simps[of 1] bit_length.simps[of 0])
  next
    case False
    with "1.prems" have h: "0 < n div 2" by simp
    have ih: "2 ^ (bit_length (n div 2) - 1) \<le> n div 2 \<and> n div 2 < 2 ^ bit_length (n div 2)"
      using "1.IH" "1.prems" h by simp
    have bl: "bit_length n = Suc (bit_length (n div 2))"
      using "1.prems" by (simp add: bit_length.simps[of n])
    have pos: "0 < bit_length (n div 2)"
      using h by (simp add: bit_length.simps[of "n div 2"])
    then obtain m where m: "bit_length (n div 2) = Suc m" by (cases "bit_length (n div 2)") auto
    show ?thesis using ih bl m by auto
  qed
qed

lemma round_half_even_err: "\<bar>of_int (round_half_even q) - q\<bar> \<le> 1 / 2"
proof -
  have a: "of_int \<lfloor>q\<rfloor> \<le> q" and b: "q < of_int \<lfloor>q\<rfloor> + 1" by linarith+
  show ?thesis
    using a b unfolding round_half_even_def Let_def by (auto simp: abs_le_iff)
qed

lemma round_half_even_of_int: "round_half_even (of_int k) = k"
  by (simp add: round_half_even_def Let_def)

lemma round_half_even_nonneg: "0 \<le> q \<Longrightarrow> 0 \<le> round_half_even q"
  unfolding round_half_even_def Let_def by auto


lemma floor_log2_bounds:
  assumes "0 < x"
  shows "power_int 2 (floor_log2 x) \<le> x \<and> x < power_int 2 (floor_log2 x + 1)"
proof -
  obtain p q where pq: "quotient_of x = (p, q)" by (cases "quotient_of x")
  have q: "0 < q" using pq by (rule quotient_of_denom_pos)
  have x: "x = of_int p / of_int q" using pq by (rule quotient_of_div)
  have p: "0 < p" using assms q x by (simp add: zero_less_divide_iff)
  define bp bq where "bp = bit_length p" and "bq = bit_length q"
  define k where "k = int bp - int bq"
  have pb: "2 ^ (bp - 1) \<le> p" "p < 2 ^ bp" using bit_length_bounds[OF p] by (simp_all add: bp_def)
  have qb: "2 ^ (bq - 1) \<le> q" "q < 2 ^ bq" using bit_length_bounds[OF q] by (simp_all add: bq_def)
  have bp0: "0 < bp" using p by (simp add: bp_def bit_length.simps[of p])
  have bq0: "0 < bq" using q by (simp add: bq_def bit_length.simps[of q])
  have prat: "(2::rat) ^ (bp - 1) \<le> of_int p" "of_int p < (2::rat) ^ bp"
    using pb by (metis of_int_le_iff of_int_numeral of_int_power, metis of_int_less_iff of_int_numeral of_int_power)
  have qrat: "(2::rat) ^ (bq - 1) \<le> of_int q" "of_int q < (2::rat) ^ bq"
    using qb by (metis of_int_le_iff of_int_numeral of_int_power, metis of_int_less_iff of_int_numeral of_int_power)
  have qpos: "(0::rat) < of_int q" using q by simp
  have up: "x < power_int 2 (k + 1)"
  proof -
    have "x < 2 ^ bp / of_int q" unfolding x using prat(2) qpos by (simp add: divide_strict_right_mono)
    also have "\<dots> \<le> 2 ^ bp / 2 ^ (bq - 1)" using qrat(1) by (simp add: frac_le)
    also have "\<dots> = power_int 2 (int bp - int (bq - 1))"
      by (simp add: power_int_diff)
    also have "int bp - int (bq - 1) = k + 1" using bq0 by (simp add: k_def)
    finally show ?thesis .
  qed
  have lo: "power_int 2 (k - 1) \<le> x"
  proof -
    have "power_int (2::rat) (k - 1) = 2 ^ (bp - 1) / 2 ^ bq"
    proof -
      have "k - 1 = int (bp - 1) - int bq" using bp0 by (simp add: k_def)
      then show ?thesis by (simp add: power_int_diff)
    qed
    also have "\<dots> \<le> of_int p / 2 ^ bq" using prat(1) by (simp add: divide_right_mono)
    also have "\<dots> \<le> of_int p / of_int q" using qrat(2) qpos p by (simp add: frac_le)
    finally show ?thesis unfolding x .
  qed
  have fl2: "floor_log2 x = (if power_int 2 k \<le> x then k else k - 1)"
    by (simp add: floor_log2_def pq k_def bp_def bq_def Let_def)
  show ?thesis
  proof (cases "power_int 2 k \<le> x")
    case True
    then show ?thesis using up fl2 by simp
  next
    case False
    then show ?thesis using lo fl2 by simp
  qed
qed


lemma fl_zero: "fl 0 = Num 0"
  by (simp add: fl_def)

lemma fl_unfold:
  assumes "0 < x"
  defines "u \<equiv> power_int 2 (max (floor_log2 x) (- 1022) - 52)"
  shows "fl x = (if 2 ^ 1024 \<le> of_int (round_half_even (x / u)) * u then Infinity
                 else Num (of_int (round_half_even (x / u)) * u))"
  using assms by (simp add: fl_def Let_def)

lemma fl_error:
  assumes "0 \<le> x" and "x \<le> 2 ^ 1000"
  shows "\<exists>r. fl x = Num r \<and> 0 \<le> r \<and> \<bar>r - x\<bar> \<le> x / 2 ^ 53 + 1 / 2 ^ 1075"
proof (cases "x = 0")
  case True
  then show ?thesis by (simp add: fl_zero)
next
  case False
  with assms have pos: "0 < x" by simp
  define e where "e = max (floor_log2 x) (- 1022)"
  define u :: rat where "u = power_int 2 (e - 52)"
  define n where "n = round_half_even (x / u)"
  define r where "r = of_int n * u"
  have u0: "0 < u" by (simp add: u_def)
  have n0: "0 \<le> n" unfolding n_def using pos u0 by (intro round_half_even_nonneg) simp
  have r0: "0 \<le> r" using n0 u0 by (simp add: r_def)
  have "\<bar>of_int n - x / u\<bar> \<le> 1 / 2" unfolding n_def by (rule round_half_even_err)
  then have "\<bar>of_int n - x / u\<bar> * u \<le> 1 / 2 * u" using u0 by (simp add: mult_right_mono)
  moreover have "\<bar>of_int n - x / u\<bar> * u = \<bar>r - x\<bar>"
  proof -
    have "\<bar>of_int n - x / u\<bar> * u = \<bar>(of_int n - x / u) * u\<bar>" using u0 by (simp add: abs_mult)
    also have "(of_int n - x / u) * u = r - x" using u0 by (simp add: r_def left_diff_distrib)
    finally show ?thesis .
  qed
  ultimately have err: "\<bar>r - x\<bar> \<le> u / 2" by simp
  have ub: "u / 2 \<le> x / 2 ^ 53 + 1 / 2 ^ 1075"
  proof (cases "- 1022 \<le> floor_log2 x")
    case True
    then have "e = floor_log2 x" by (simp add: e_def)
    then have "u = power_int 2 (floor_log2 x) / 2 ^ 52"
      by (simp add: u_def power_int_diff)
    also have "\<dots> \<le> x / 2 ^ 52" using floor_log2_bounds[OF pos] by (simp add: divide_right_mono)
    finally have "u / 2 \<le> x / 2 ^ 52 / 2" by simp
    also have "x / 2 ^ 52 / 2 = x / 2 ^ 53" by simp
    finally show ?thesis by (simp add: add_increasing2)
  next
    case False
    then have "e = - 1022" by (simp add: e_def)
    then have "u = power_int 2 (- 1074)" by (simp add: u_def)
    also have "\<dots> = 1 / 2 ^ 1074" by (simp add: power_int_minus_left field_simps)
    finally have "u / 2 = 1 / 2 ^ 1075" by simp
    then show ?thesis using pos by simp
  qed
  define eps where "eps = x / 2 ^ 53 + 1 / 2 ^ 1075"
  have ub': "u / 2 \<le> eps" using ub by (simp only: eps_def)
  have rle: "r \<le> x + eps" using err ub' by linarith
  have "x / 2 ^ 53 \<le> x" using pos by (simp add: field_simps)
  moreover have "(1::rat) / 2 ^ 1075 \<le> 1" by simp
  ultimately have "eps \<le> x + 1" unfolding eps_def by linarith
  with rle assms(2) have "r \<le> 2 * 2 ^ 1000 + 1" by linarith
  also have "\<dots> < (2::rat) ^ 1024" by simp
  finally have nov: "\<not> 2 ^ 1024 \<le> r" by simp
  have "fl x = Num r"
    using fl_unfold[OF pos] nov by (simp add: r_def n_def u_def e_def)
  moreover have "\<bar>r - x\<bar> \<le> eps" using err ub' by linarith
  ultimately show ?thesis using r0 unfolding eps_def by blast
qed

lemma fl_of_int:
  assumes "0 \<le> n" and "n < 2 ^ 53"
  shows "fl (of_int n) = Num (of_int n)"
proof (cases "n = 0")
  case True
  then show ?thesis by (simp add: fl_zero)
next
  case False
  with assms have n1: "1 \<le> n" by simp
  define x :: rat where "x = of_int n"
  have pos: "0 < x" using n1 by (simp add: x_def)
  define e where "e = floor_log2 x"
  have b: "power_int 2 e \<le> x" "x < power_int 2 (e + 1)"
    using floor_log2_bounds[OF pos] by (simp_all add: e_def)
  have x1: "1 \<le> x" using n1 by (simp add: x_def)
  have xlt: "x < 2 ^ 53" using assms(2) unfolding x_def
    by (metis of_int_less_iff of_int_numeral of_int_power)
  have e0: "0 \<le> e"
  proof (rule ccontr)
    assume "\<not> 0 \<le> e"
    then have "e + 1 \<le> 0" by simp
    then have "power_int (2::rat) (e + 1) \<le> power_int 2 0"
      by (intro power_int_increasing) simp_all
    with b(2) x1 show False by simp
  qed
  have e52: "e \<le> 52"
  proof (rule ccontr)
    assume "\<not> e \<le> 52"
    then have "53 \<le> e" by simp
    then have "power_int (2::rat) 53 \<le> power_int 2 e"
      by (intro power_int_increasing) simp_all
    with b(1) xlt show False by simp
  qed
  define m where "m = nat (52 - e)"
  have me: "e - 52 = - int m" using e52 by (simp add: m_def)
  have "power_int (2::rat) (e - 52) = power_int 2 (- int m)" using me by simp
  also have "\<dots> = inverse (power_int 2 (int m))" by (rule power_int_minus)
  also have "\<dots> = 1 / 2 ^ m" by (simp add: inverse_eq_divide)
  finally have u': "power_int (2::rat) (e - 52) = 1 / 2 ^ m" .
  have "max (floor_log2 x) (- 1022) = e" using e0 by (simp add: e_def)
  then have u: "power_int (2::rat) (max (floor_log2 x) (- 1022) - 52) = 1 / 2 ^ m"
    using u' by simp
  have q: "x / (1 / 2 ^ m) = of_int (n * 2 ^ m)" by (simp add: x_def)
  have r: "of_int (round_half_even (x / (1 / 2 ^ m))) * (1 / 2 ^ m) = x"
    unfolding q round_half_even_of_int by (simp add: x_def)
  have "\<not> (2::rat) ^ 1024 \<le> x" using xlt by simp
  then have "fl x = Num x" using fl_unfold[OF pos] unfolding u r by simp
  then show ?thesis by (simp add: x_def)
qed

lemma code_simps [simp]:
  "code CHR ''h'' = 104" "code CHR ''m'' = 109" "code CHR ''.'' = 46" "code CHR ''0'' = 48"
  by (simp_all add: code_def)

lemma not_digit_unit [simp]:
  "\<not> is_digit CHR ''h''" "\<not> is_digit CHR ''m''" "\<not> is_digit CHR ''.''"
  by (simp_all add: is_digit_def)

lemma digit_fixed:
  "is_digit c \<Longrightarrow> \<not> is_space c \<and> \<not> is_upper c \<and> code c < 192"
  by (auto simp: is_digit_def is_space_def is_upper_def)

lemma unit_fixed:
  "c \<in> {CHR ''h'', CHR ''m'', CHR ''.''} \<Longrightarrow> \<not> is_space c \<and> \<not> is_upper c \<and> code c < 192"
  by (auto simp: is_space_def is_upper_def)

lemma dropWhile_none: "(\<And>c. c \<in> set t \<Longrightarrow> \<not> P c) \<Longrightarrow> dropWhile P t = t"
  by (cases t) auto

lemma normalize_fixed:
  assumes "\<And>c. c \<in> set t \<Longrightarrow> \<not> is_space c \<and> \<not> is_upper c \<and> code c < 192"
  shows "trim (toLowerCase t) = t"
proof -
  have 1: "\<And>c. c \<in> set t \<Longrightarrow> \<not> is_space c" and 2: "\<And>c. c \<in> set t \<Longrightarrow> \<not> is_upper c"
    and 3: "\<And>c. c \<in> set t \<Longrightarrow> \<not> 192 \<le> code c"
    using assms by (simp_all add: not_le)
  have l: "toLowerCase t = t"
    unfolding toLowerCase_def by (intro map_idI) (simp add: 2 3)
  have "dropWhile is_space t = t" using 1 by (intro dropWhile_none) auto
  moreover have "dropWhile is_space (rev t) = rev t" using 1 by (intro dropWhile_none) auto
  ultimately show ?thesis by (simp add: trim_def l)
qed

lemma takeWhile_digits:
  "list_all is_digit d \<Longrightarrow> \<not> is_digit c \<Longrightarrow> takeWhile is_digit (d @ c # r) = d"
  by (induction d) auto

lemma dropWhile_digits:
  "list_all is_digit d \<Longrightarrow> \<not> is_digit c \<Longrightarrow> dropWhile is_digit (d @ c # r) = c # r"
  by (induction d) auto

lemma takeWhile_all_digits: "list_all is_digit d \<Longrightarrow> takeWhile is_digit d = d"
  by (induction d) auto

lemma dropWhile_all_digits: "list_all is_digit d \<Longrightarrow> dropWhile is_digit d = []"
  by (induction d) auto

lemma digits_val_snoc: "digits_val (ds @ [c]) = 10 * digits_val ds + (int (code c) - 48)"
  by (simp add: digits_val_def)

lemma digits_val_nonneg: "list_all is_digit ds \<Longrightarrow> 0 \<le> digits_val ds"
proof (induction ds rule: rev_induct)
  case Nil
  then show ?case by (simp add: digits_val_def)
next
  case (snoc c ds)
  then show ?case by (auto simp: digits_val_snoc is_digit_def)
qed

lemma digits_val_Nil [simp]: "digits_val [] = 0"
  by (simp add: digits_val_def)

lemma parseInt_zero: "parseInt ''0'' = Num 0"
  by (simp add: parseInt_def digits_val_def fl_zero)

lemma parseInt_exact:
  "list_all is_digit d \<Longrightarrow> digits_val d < 2 ^ 53 \<Longrightarrow> parseInt d = Num (of_int (digits_val d))"
  by (simp add: parseInt_def fl_of_int digits_val_nonneg)

lemma times60_exact:
  "0 \<le> n \<Longrightarrow> 60 * n < 2 ^ 53 \<Longrightarrow> times60 (Num (of_int n)) = Num (of_int (60 * n))"
proof -
  assume a: "0 \<le> n" "60 * n < 2 ^ 53"
  have "fl (of_int (60 * n)) = Num (of_int (60 * n))" using a by (intro fl_of_int) auto
  then show ?thesis by (simp add: mult.commute)
qed

lemma Math_round_int: "Math_round (Num (of_int k)) = Num (of_int k)"
proof -
  have "\<lfloor>(of_int k :: rat) + 1 / 2\<rfloor> = k" by linarith
  then show ?thesis by simp
qed

lemma parseDuration_plain:
  assumes "all_digits n"
  shows "parseDuration n = Inr (parseInt n)"
proof -
  have "trim (toLowerCase n) = n"
    using assms by (intro normalize_fixed) (auto simp: all_digits_def list_all_iff digit_fixed)
  then show ?thesis using assms by (simp add: parseDuration_def)
qed

lemma parseDuration_minutes:
  assumes "all_digits n"
  shows "parseDuration (n @ ''m'') = Inr (num_plus (times60 (parseInt ''0'')) (parseInt n))"
proof -
  have d: "list_all is_digit n" "n \<noteq> []" using assms by (simp_all add: all_digits_def)
  define X where "X = n @ ''m''"
  have norm: "trim (toLowerCase X) = X" unfolding X_def
    using d digit_fixed unit_fixed by (intro normalize_fixed) (auto simp: list_all_iff)
  have t: "takeWhile is_digit X = n" "dropWhile is_digit X = ''m''"
    using d by (simp_all add: X_def takeWhile_digits dropWhile_digits)
  have a: "\<not> all_digits X" by (simp add: all_digits_def X_def)
  have b: "decimal_hours_match X = None"
    by (simp add: decimal_hours_match_def t d Let_def)
  have c: "hours_minutes_match X = Some (None, Some n)"
    by (simp add: hours_minutes_match_def t d Let_def)
  have "parseDuration X = Inr (num_plus (times60 (parseInt ''0'')) (parseInt n))"
    using d by (simp add: parseDuration_def norm a b c or_zero_def truthy_def or_empty_def)
  then show ?thesis by (simp only: X_def)
qed

lemma parseFloat_int:
  "list_all is_digit n \<Longrightarrow> parseFloat n = parseInt n"
  by (simp add: parseFloat_def parseInt_def decimal_value_def Let_def takeWhile_all_digits
      dropWhile_all_digits)

lemma parseDuration_hours:
  assumes "all_digits n"
  shows "parseDuration (n @ ''h'') = Inr (Math_round (times60 (parseInt n)))"
proof -
  have d: "list_all is_digit n" "n \<noteq> []" using assms by (simp_all add: all_digits_def)
  define X where "X = n @ ''h''"
  have norm: "trim (toLowerCase X) = X" unfolding X_def
    using d digit_fixed unit_fixed by (intro normalize_fixed) (auto simp: list_all_iff)
  have t: "takeWhile is_digit X = n" "dropWhile is_digit X = ''h''"
    using d by (simp_all add: X_def takeWhile_digits dropWhile_digits)
  have a: "\<not> all_digits X" by (simp add: all_digits_def X_def)
  have b: "decimal_hours_match X = Some n"
    by (simp add: decimal_hours_match_def t d Let_def)
  have "parseDuration X = Inr (Math_round (times60 (parseInt n)))"
    by (simp add: parseDuration_def norm a b parseFloat_int d)
  then show ?thesis by (simp only: X_def)
qed

lemma parseDuration_hours_minutes:
  assumes "all_digits h" and "all_digits m"
  shows "parseDuration (h @ ''h'' @ m @ ''m'') = Inr (num_plus (times60 (parseInt h)) (parseInt m))"
proof -
  have d: "list_all is_digit h" "h \<noteq> []" "list_all is_digit m" "m \<noteq> []"
    using assms by (simp_all add: all_digits_def)
  define Y where "Y = m @ ''m''"
  define X where "X = h @ ''h'' @ Y"
  have norm: "trim (toLowerCase X) = X" unfolding X_def Y_def
    using d digit_fixed unit_fixed by (intro normalize_fixed) (auto simp: list_all_iff)
  have Y0: "Y \<noteq> []" by (simp add: Y_def)
  have t: "takeWhile is_digit X = h" "dropWhile is_digit X = CHR ''h'' # Y"
    using d by (simp_all add: X_def takeWhile_digits dropWhile_digits)
  have t2: "takeWhile is_digit Y = m" "dropWhile is_digit Y = ''m''"
    using d by (simp_all add: Y_def takeWhile_digits dropWhile_digits)
  have a: "\<not> all_digits X" by (simp add: all_digits_def X_def)
  have b: "decimal_hours_match X = None"
    using d Y0 by (simp add: decimal_hours_match_def t Let_def)
  have c: "hours_minutes_match X = Some (Some h, Some m)"
    using d by (simp add: hours_minutes_match_def t t2 Let_def)
  have "parseDuration X = Inr (num_plus (times60 (parseInt h)) (parseInt m))"
    using d by (simp add: parseDuration_def norm a b c or_zero_def truthy_def or_empty_def)
  then show ?thesis by (simp only: X_def Y_def)
qed

lemma parseDuration_decimal:
  assumes "all_digits d" and "all_digits f" and "u = [] \<or> u = ''h''"
  shows "parseDuration (d @ ''.'' @ f @ u) =
           Inr (Math_round (times60 (fl (of_int (digits_val d) + of_int (digits_val f) / 10 ^ length f))))"
proof -
  have dd: "list_all is_digit d" "d \<noteq> []" "list_all is_digit f" "f \<noteq> []"
    using assms by (simp_all add: all_digits_def)
  define Y where "Y = f @ u"
  define X where "X = d @ ''.'' @ Y"
  define G where "G = d @ ''.'' @ f"
  have norm: "trim (toLowerCase X) = X" unfolding X_def Y_def
    using dd digit_fixed unit_fixed assms(3) by (intro normalize_fixed) (auto simp: list_all_iff)
  have t: "takeWhile is_digit X = d" "dropWhile is_digit X = CHR ''.'' # Y"
    using dd by (simp_all add: X_def takeWhile_digits dropWhile_digits)
  have t2: "takeWhile is_digit Y = f" "dropWhile is_digit Y = u"
    using dd assms(3) by (auto simp: Y_def takeWhile_digits dropWhile_digits takeWhile_all_digits
        dropWhile_all_digits)
  have t3: "takeWhile is_digit G = d" "dropWhile is_digit G = CHR ''.'' # f"
    using dd by (simp_all add: G_def takeWhile_digits dropWhile_digits)
  have a: "\<not> all_digits X" by (simp add: all_digits_def X_def)
  have b: "decimal_hours_match X = Some G"
    using dd assms(3) by (auto simp: decimal_hours_match_def t t2 Let_def G_def)
  have v: "decimal_value G = of_int (digits_val d) + of_int (digits_val f) / 10 ^ length f"
    using dd by (simp add: decimal_value_def t3 Let_def takeWhile_all_digits)
  have "parseDuration X =
           Inr (Math_round (times60 (fl (of_int (digits_val d) + of_int (digits_val f) / 10 ^ length f))))"
    by (simp add: parseDuration_def norm a b parseFloat_def v)
  then show ?thesis by (simp only: X_def Y_def)
qed

lemma parseDuration_unrecognized:
  "\<not> recognized (trim (toLowerCase s)) \<Longrightarrow> parseDuration s = Inl (InvalidDuration s)"
  by (auto simp: recognized_def parseDuration_def Let_def split: option.splits)

lemma takeWhile_digit_set: "c \<in> set (takeWhile is_digit t) \<Longrightarrow> is_digit c"
  by (rule set_takeWhileD[THEN conjunct2])

lemma recognized_chars:
  assumes "recognized t" and "c \<in> set t"
  shows "is_digit c \<or> c \<in> {CHR ''.'', CHR ''h'', CHR ''m''}"
proof -
  define d1 r1 where "d1 = takeWhile is_digit t" and "r1 = dropWhile is_digit t"
  have t: "set t = set d1 \<union> set r1" unfolding d1_def r1_def by (metis set_append takeWhile_dropWhile_id)
  have d1: "\<And>x. x \<in> set d1 \<Longrightarrow> is_digit x" unfolding d1_def by (rule takeWhile_digit_set)
  define d2 r2 where "d2 = takeWhile is_digit (tl r1)" and "r2 = dropWhile is_digit (tl r1)"
  have tl: "tl r1 = d2 @ r2" by (simp add: d2_def r2_def)
  have d2: "\<And>x. x \<in> set d2 \<Longrightarrow> is_digit x" unfolding d2_def by (rule takeWhile_digit_set)
  have r1: "r1 \<noteq> [] \<Longrightarrow> set r1 = insert (hd r1) (set d2 \<union> set r2)"
    using tl by (cases r1) auto
  have tl0: "r1 \<noteq> [] \<Longrightarrow> tl r1 = [] \<Longrightarrow> set r1 = {hd r1}" by (cases r1) auto
  from assms(2) t have cc: "c \<in> set d1 \<or> c \<in> set r1" by simp
  from assms(1) consider (a) "all_digits t" | (b) "decimal_hours_match t \<noteq> None"
    | (c) "hours_minutes_match t \<noteq> None" | (d) "digits_then CHR ''m'' t \<noteq> None"
    | (e) "digits_then CHR ''h'' t \<noteq> None"
    by (auto simp: recognized_def)
  then show ?thesis
  proof cases
    case a
    then show ?thesis using assms(2) by (auto simp: all_digits_def list_all_iff)
  next
    case b
    then have "r1 = [] \<or> r1 = ''h'' \<or> (r1 \<noteq> [] \<and> hd r1 = CHR ''.'' \<and> (r2 = [] \<or> r2 = ''h''))"
      by (auto simp: decimal_hours_match_def Let_def d1_def[symmetric] r1_def[symmetric]
          d2_def[symmetric] r2_def[symmetric] split: if_splits)
    then show ?thesis using cc d1 d2 r1 by (elim disjE conjE) auto
  next
    case c
    then have "t = [] \<or> r1 = ''m'' \<or> (r1 \<noteq> [] \<and> hd r1 = CHR ''h'' \<and> (r2 = ''m'' \<or> tl r1 = []))"
      by (auto simp: hours_minutes_match_def Let_def d1_def[symmetric] r1_def[symmetric]
          d2_def[symmetric] r2_def[symmetric] split: if_splits)
    then show ?thesis using cc assms(2) d1 d2 r1 tl0 by (elim disjE conjE) auto
  next
    case d
    then have "r1 = ''m''"
      by (auto simp: digits_then_def r1_def[symmetric] split: if_splits)
    then show ?thesis using cc d1 by auto
  next
    case e
    then have "r1 = ''h''"
      by (auto simp: digits_then_def r1_def[symmetric] split: if_splits)
    then show ?thesis using cc d1 by auto
  qed
qed

lemma fl_dyadic:
  assumes "0 \<le> a" and "a < 2 ^ 53" and "j \<le> 1074"
  shows "fl (of_int a / 2 ^ j) = Num (of_int a / 2 ^ j)"
proof (cases "a = 0")
  case True
  then show ?thesis by (simp add: fl_zero)
next
  case False
  with assms have a1: "1 \<le> a" by simp
  define x :: rat where "x = of_int a / 2 ^ j"
  have pos: "0 < x" using a1 by (simp add: x_def)
  define e0 where "e0 = floor_log2 x"
  have b: "power_int 2 e0 \<le> x" "x < power_int 2 (e0 + 1)"
    using floor_log2_bounds[OF pos] by (simp_all add: e0_def)
  have alt: "(of_int a :: rat) < 2 ^ 53" using assms(2)
    by (metis of_int_less_iff of_int_numeral of_int_power)
  have xlt: "x < power_int 2 (53 - int j)"
  proof -
    have "x < 2 ^ 53 / 2 ^ j" unfolding x_def using alt by (simp add: divide_strict_right_mono)
    also have "\<dots> = power_int 2 (int 53 - int j)" by (simp add: power_int_diff)
    finally show ?thesis by simp
  qed
  have e52: "e0 \<le> 52 - int j"
  proof (rule ccontr)
    assume "\<not> e0 \<le> 52 - int j"
    then have "53 - int j \<le> e0" by simp
    then have "power_int (2::rat) (53 - int j) \<le> power_int 2 e0"
      by (intro power_int_increasing) simp_all
    with b(1) xlt show False by simp
  qed
  define e where "e = max e0 (- 1022)"
  have n0: "0 \<le> 52 - e - int j" using e52 assms(3) by (simp add: e_def max_def)
  define n where "n = nat (52 - e - int j)"
  have me: "e - 52 = - int (n + j)" using n0 by (simp add: n_def)
  have "power_int (2::rat) (e - 52) = power_int 2 (- int (n + j))" using me by simp
  also have "\<dots> = inverse (power_int 2 (int (n + j)))" by (rule power_int_minus)
  also have "\<dots> = 1 / 2 ^ (n + j)" by (simp only: power_int_of_nat inverse_eq_divide)
  finally have u': "power_int (2::rat) (e - 52) = 1 / 2 ^ (n + j)" .
  have u: "power_int (2::rat) (max (floor_log2 x) (- 1022) - 52) = 1 / 2 ^ (n + j)"
    using u' by (simp add: e_def e0_def)
  have q: "x / (1 / 2 ^ (n + j)) = of_int (a * 2 ^ n)" by (simp add: x_def power_add)
  have r: "of_int (round_half_even (x / (1 / 2 ^ (n + j)))) * (1 / 2 ^ (n + j)) = x"
    unfolding q round_half_even_of_int by (simp add: x_def power_add)
  have "x \<le> of_int a" unfolding x_def using a1 by (simp add: field_simps mult_le_cancel_left1 self_le_power)
  with alt have "x < 2 ^ 53" by linarith
  then have "\<not> (2::rat) ^ 1024 \<le> x" by simp
  then have "fl x = Num x" using fl_unfold[OF pos] unfolding u r by simp
  then show ?thesis by (simp add: x_def)
qed

lemma round_away_from_tie:
  fixes p x eps :: rat
  assumes "\<bar>p - x\<bar> \<le> eps" and "eps < \<bar>frac x - 1 / 2\<bar>"
  shows "\<lfloor>p + 1 / 2\<rfloor> = \<lfloor>x + 1 / 2\<rfloor>"
proof -
  define n where "n = \<lfloor>x\<rfloor>"
  define y where "y = frac x"
  have x: "x = of_int n + y" by (simp add: n_def y_def frac_def)
  have f: "0 \<le> y" "y < 1" by (simp_all add: y_def frac_lt_1)
  have ab: "p - x \<le> eps" "x - p \<le> eps" using assms(1) by (simp_all add: abs_le_iff)
  show ?thesis
  proof (cases "y < 1 / 2")
    case True
    then have e: "eps < 1 / 2 - y" using assms(2) by (simp add: y_def)
    have "\<lfloor>x + 1 / 2\<rfloor> = n"
    proof (rule floor_unique)
      show "of_int n \<le> x + 1 / 2" using x f by linarith
      show "x + 1 / 2 < of_int n + 1" using x True by linarith
    qed
    moreover have "\<lfloor>p + 1 / 2\<rfloor> = n"
    proof (rule floor_unique)
      show "of_int n \<le> p + 1 / 2" using ab e x f by linarith
      show "p + 1 / 2 < of_int n + 1" using ab e x f by linarith
    qed
    ultimately show ?thesis by simp
  next
    case False
    then have e: "eps < y - 1 / 2" using assms(2) by (simp add: y_def)
    have o: "(of_int (n + 1) :: rat) = of_int n + 1" by simp
    have "\<lfloor>x + 1 / 2\<rfloor> = n + 1"
    proof (rule floor_unique)
      show "of_int (n + 1) \<le> x + 1 / 2" unfolding o using x False by linarith
      show "x + 1 / 2 < of_int (n + 1) + 1" unfolding o using x f by linarith
    qed
    moreover have "\<lfloor>p + 1 / 2\<rfloor> = n + 1"
    proof (rule floor_unique)
      show "of_int (n + 1) \<le> p + 1 / 2" unfolding o using ab e x f by linarith
      show "p + 1 / 2 < of_int (n + 1) + 1" unfolding o using ab e x f by linarith
    qed
    ultimately show ?thesis by simp
  qed
qed

lemma decimal_minutes_error:
  assumes "0 \<le> v" and "v \<le> 2 ^ 990"
  shows "\<exists>p. times60 (fl v) = Num p \<and> \<bar>p - 60 * v\<bar> \<le> 60 * v / 2 ^ 51 + 1 / 2 ^ 1000"
proof -
  define t :: rat where "t = 1 / 2 ^ 1075"
  define c :: rat where "c = 1 / 2 ^ 53"
  have t: "0 \<le> t" "61 * t \<le> 1 / 2 ^ 1000" by (simp_all add: t_def)
  have c: "0 \<le> c" "c \<le> 1" "c = 1 / 9007199254740992" by (simp_all add: c_def)
  have v1: "v \<le> 2 ^ 1000"
  proof -
    have "(2::rat) ^ 990 \<le> 2 ^ 1000" by simp
    with assms(2) show ?thesis by linarith
  qed
  from fl_error[OF assms(1) v1] obtain r1 where
    r1: "fl v = Num r1" "0 \<le> r1" "\<bar>r1 - v\<bar> \<le> v * c + t"
    unfolding t_def c_def by auto
  have x2: "0 \<le> r1 * 60" using r1(2) by simp
  have vc: "v * c \<le> v" using assms(1) c by (simp add: mult_left_le)
  have "t \<le> 1" by (simp add: t_def)
  then have "r1 \<le> 2 * v + 1" using r1(3) vc by linarith
  then have "r1 * 60 \<le> 120 * 2 ^ 990 + 60" using assms(2) by linarith
  also have "\<dots> \<le> (2::rat) ^ 1000" by simp
  finally have x2c: "r1 * 60 \<le> 2 ^ 1000" .
  from fl_error[OF x2 x2c] obtain r2 where
    r2: "fl (r1 * 60) = Num r2" "\<bar>r2 - r1 * 60\<bar> \<le> r1 * 60 * c + t"
    unfolding t_def c_def by auto
  define w where "w = v * c"
  have w: "0 \<le> w" "w = v / 9007199254740992" using assms(1) c by (simp_all add: w_def)
  have e1: "\<bar>r1 - v\<bar> \<le> w + t" using r1(3) by (simp add: w_def)
  have "r1 \<le> v + w + t" using e1 by linarith
  then have "r1 * c \<le> (v + w + t) * c" using c(1) by (intro mult_right_mono)
  also have "\<dots> = w + w * c + t * c" by (simp add: w_def algebra_simps)
  also have "\<dots> \<le> w + w + t" using w(1) t(1) c by (intro add_mono mult_left_le) simp_all
  finally have rc: "r1 * c \<le> 2 * w + t" by simp
  have e2: "\<bar>r2 - r1 * 60\<bar> \<le> 60 * (r1 * c) + t" using r2(2) by (simp add: algebra_simps)
  define z where "z = r1 * c"
  have a1: "r1 - v \<le> w + t" "v - r1 \<le> w + t" using e1 by (simp_all add: abs_le_iff)
  have a2: "r2 - r1 * 60 \<le> 60 * z + t" "r1 * 60 - r2 \<le> 60 * z + t"
    using e2 by (simp_all add: abs_le_iff z_def)
  have a3: "z \<le> 2 * w + t" using rc by (simp add: z_def)
  have "r2 - 60 * v \<le> 180 * w + 121 * t + t" using a1 a2 a3 t(1) by linarith
  moreover have "60 * v - r2 \<le> 180 * w + 121 * t + t" using a1 a2 a3 t(1) by linarith
  ultimately have "\<bar>r2 - 60 * v\<bar> \<le> 180 * w + 121 * t + t" by (simp add: abs_le_iff)
  moreover have "180 * w \<le> 60 * v / 2 ^ 51" using assms(1) by (simp add: w(2))
  moreover have "122 * t \<le> 1 / 2 ^ 1000" by (simp add: t_def)
  ultimately have "\<bar>r2 - 60 * v\<bar> \<le> 60 * v / 2 ^ 51 + 1 / 2 ^ 1000" by linarith
  then show ?thesis using r1(1) r2(1) by simp
qed


lemma parseFloat_decimal:
  assumes "all_digits d" and "all_digits f"
  shows "parseFloat (d @ ''.'' @ f)
           = fl (of_int (digits_val d) + of_int (digits_val f) / 10 ^ length f)"
proof -
  have dd: "list_all is_digit d" "list_all is_digit f"
    using assms by (simp_all add: all_digits_def)
  define G where "G = d @ ''.'' @ f"
  have t3: "takeWhile is_digit G = d" "dropWhile is_digit G = CHR ''.'' # f"
    using dd by (simp_all add: G_def takeWhile_digits dropWhile_digits)
  have "decimal_value G = of_int (digits_val d) + of_int (digits_val f) / 10 ^ length f"
    using dd by (simp add: decimal_value_def t3 Let_def takeWhile_all_digits)
  then show ?thesis by (simp add: parseFloat_def G_def)
qed

lemma times60_dyadic:
  assumes "0 \<le> a" and "60 * a < 2 ^ 53" and "j \<le> 1074"
  shows "times60 (fl (of_int a / 2 ^ j)) = Num (60 * (of_int a / 2 ^ j))"
proof -
  have a: "a < 2 ^ 53" using assms(1,2) by linarith
  have b: "0 \<le> 60 * a" using assms(1) by simp
  have "fl (of_int (60 * a) / 2 ^ j) = Num (of_int (60 * a) / 2 ^ j)"
    using b assms(2,3) by (rule fl_dyadic)
  then show ?thesis
    by (simp add: fl_dyadic[OF assms(1) a assms(3)] mult.commute)
qed

text \<open>
  Claim C4, as amended. For texts of decimal digits \<open>n\<close>, \<open>h\<close>, \<open>m\<close>, \<open>d\<close>, \<open>f\<close>:
  \<open>n\<close> and \<open>n\<close>m give the minute count \<open>n\<close>, \<open>n\<close>h gives \<open>60 n\<close>, \<open>h\<close>h\<open>m\<close>m gives
  \<open>60 h + m\<close>, each as long as the count is below \<open>2 ^ 53\<close> (the integers a double holds
  exactly). For \<open>d\<close>.\<open>f\<close>h, with \<open>v\<close> the value written, \<open>parseFloat\<close> gives the double
  nearest to \<open>v\<close> and the result is \<open>Math.round\<close> of the double product with 60: a whole
  number \<open>k\<close> with \<open>k - 1/2 \<le> p < k + 1/2\<close>, that is the product \<open>p\<close> rounded to the
  nearest minute, half-up. The product differs from the exact \<open>60 v\<close> by at most
  \<open>60 v / 2 ^ 51 + 2 ^ -1000\<close>. So \<open>k\<close> is the exact \<open>60 v\<close> rounded half-up whenever
  \<open>60 v\<close> is farther than that from a half-minute tie, and also whenever \<open>v\<close> and \<open>60 v\<close>
  are doubles (\<open>v = a / 2 ^ j\<close> with \<open>60 a < 2 ^ 53\<close>), ties included: 0.125h gives 8.
  Up to \<open>2 ^ 20\<close> minutes \<open>k\<close> is within \<open>2 ^ -30\<close> of half-up rounding in any case.
  A text that none of the patterns matches after lower-casing and trimming, in
  particular one with a character other than a digit, a point, h or m, fails with
  \<open>InvalidDuration\<close>, whose message contains the text as given.
\<close>

theorem parseDuration_forms:
  assumes "all_digits n" and "all_digits h" and "all_digits m" and "all_digits d" and "all_digits f"
      and "v = of_int (digits_val d) + of_int (digits_val f) / 10 ^ length f"
  shows "(digits_val n < 2 ^ 53 \<longrightarrow>
            parseDuration n = Inr (Num (of_int (digits_val n)))
          \<and> parseDuration (n @ ''m'') = Inr (Num (of_int (digits_val n))))
       \<and> (60 * digits_val n < 2 ^ 53 \<longrightarrow>
            parseDuration (n @ ''h'') = Inr (Num (of_int (60 * digits_val n))))
       \<and> (60 * digits_val h + digits_val m < 2 ^ 53 \<longrightarrow>
            parseDuration (h @ ''h'' @ m @ ''m'')
              = Inr (Num (of_int (60 * digits_val h + digits_val m))))
       \<and> parseFloat (d @ ''.'' @ f) = fl v
       \<and> parseDuration (d @ ''.'' @ f @ ''h'')
            = Inr (Math_round (times60 (parseFloat (d @ ''.'' @ f))))
       \<and> (v \<le> 2 ^ 990 \<longrightarrow>
            (\<exists>p k. times60 (parseFloat (d @ ''.'' @ f)) = Num p
               \<and> parseDuration (d @ ''.'' @ f @ ''h'') = Inr (Num (of_int k))
               \<and> of_int k - 1 / 2 \<le> p \<and> p < of_int k + 1 / 2
               \<and> \<bar>p - 60 * v\<bar> \<le> 60 * v / 2 ^ 51 + 1 / 2 ^ 1000
               \<and> (60 * v / 2 ^ 51 + 1 / 2 ^ 1000 < \<bar>frac (60 * v) - 1 / 2\<bar>
                    \<longrightarrow> k = \<lfloor>60 * v + 1 / 2\<rfloor>)
               \<and> (60 * v \<le> 2 ^ 20 \<longrightarrow>
                    \<lfloor>60 * v + 1 / 2 - 1 / 2 ^ 30\<rfloor> \<le> k \<and> k \<le> \<lfloor>60 * v + 1 / 2 + 1 / 2 ^ 30\<rfloor>)))
       \<and> (v = of_int a / 2 ^ j \<and> 0 \<le> a \<and> 60 * a < 2 ^ 53 \<and> j \<le> 1074 \<longrightarrow>
            parseDuration (d @ ''.'' @ f @ ''h'') = Inr (Num (of_int \<lfloor>60 * v + 1 / 2\<rfloor>)))
       \<and> (\<not> recognized (trim (toLowerCase s)) \<longrightarrow> parseDuration s = Inl (InvalidDuration s))
       \<and> ((\<exists>c\<in>set (trim (toLowerCase s)). \<not> is_digit c \<and> c \<notin> {CHR ''.'', CHR ''h'', CHR ''m''})
            \<longrightarrow> parseDuration s = Inl (InvalidDuration s))
       \<and> message (InvalidDuration s)
            = ''Invalid duration format: '' @ s @ ''. Use formats like: 1h, 30m, 1h30m, 1.5h, or 90''"
proof -
  have dn: "list_all is_digit n" "0 \<le> digits_val n"
    and dh: "list_all is_digit h" "0 \<le> digits_val h"
    and dm: "list_all is_digit m" "0 \<le> digits_val m"
    and dd: "list_all is_digit d" "0 \<le> digits_val d"
    and df: "list_all is_digit f" "0 \<le> digits_val f"
    using assms(1-5) by (simp_all add: all_digits_def digits_val_nonneg)
  have plain: "parseDuration n = Inr (Num (of_int (digits_val n)))"
    and mins: "parseDuration (n @ ''m'') = Inr (Num (of_int (digits_val n)))"
    if "digits_val n < 2 ^ 53"
  proof -
    show "parseDuration n = Inr (Num (of_int (digits_val n)))"
      using that dn by (simp add: parseDuration_plain[OF assms(1)] parseInt_exact)
    have "fl (0 * 60) = Num 0" by (simp add: fl_zero)
    then show "parseDuration (n @ ''m'') = Inr (Num (of_int (digits_val n)))"
      using that dn
      by (simp add: parseDuration_minutes[OF assms(1)] parseInt_zero parseInt_exact fl_of_int)
  qed
  have hours: "parseDuration (n @ ''h'') = Inr (Num (of_int (60 * digits_val n)))"
    if "60 * digits_val n < 2 ^ 53"
  proof -
    have "digits_val n < 2 ^ 53" using that dn(2) by linarith
    then have "parseInt n = Num (of_int (digits_val n))" using dn by (simp add: parseInt_exact)
    then show ?thesis
      using times60_exact[OF dn(2) that] Math_round_int[of "60 * digits_val n"]
      by (simp only: parseDuration_hours[OF assms(1)])
  qed
  have hm: "parseDuration (h @ ''h'' @ m @ ''m'')
              = Inr (Num (of_int (60 * digits_val h + digits_val m)))"
    if "60 * digits_val h + digits_val m < 2 ^ 53"
  proof -
    have a: "digits_val h < 2 ^ 53" "60 * digits_val h < 2 ^ 53" "digits_val m < 2 ^ 53"
      using that dh(2) dm(2) by linarith+
    have b: "parseInt h = Num (of_int (digits_val h))" "parseInt m = Num (of_int (digits_val m))"
      using a dh dm by (simp_all add: parseInt_exact)
    have "fl (of_int (60 * digits_val h + digits_val m)) = Num (of_int (60 * digits_val h + digits_val m))"
      using that dh(2) dm(2) by (intro fl_of_int) auto
    then have c: "num_plus (Num (of_int (60 * digits_val h))) (Num (of_int (digits_val m)))
            = Num (of_int (60 * digits_val h + digits_val m))"
      by simp
    show ?thesis
      unfolding parseDuration_hours_minutes[OF assms(2,3)] b times60_exact[OF dh(2) a(2)] c ..
  qed
  have v0: "0 \<le> v" using dd(2) df(2) by (simp add: assms(6))
  have pf: "parseFloat (d @ ''.'' @ f) = fl v"
    unfolding assms(6) by (rule parseFloat_decimal[OF assms(4,5)])
  have pd0: "parseDuration (d @ ''.'' @ f @ ''h'') = Inr (Math_round (times60 (fl v)))"
    unfolding assms(6) by (rule parseDuration_decimal[OF assms(4,5)]) simp
  have pd: "parseDuration (d @ ''.'' @ f @ ''h'')
            = Inr (Math_round (times60 (parseFloat (d @ ''.'' @ f))))"
    unfolding pf by (rule pd0)
  have dec: "\<exists>p k. times60 (parseFloat (d @ ''.'' @ f)) = Num p
               \<and> parseDuration (d @ ''.'' @ f @ ''h'') = Inr (Num (of_int k))
               \<and> of_int k - 1 / 2 \<le> p \<and> p < of_int k + 1 / 2
               \<and> \<bar>p - 60 * v\<bar> \<le> 60 * v / 2 ^ 51 + 1 / 2 ^ 1000
               \<and> (60 * v / 2 ^ 51 + 1 / 2 ^ 1000 < \<bar>frac (60 * v) - 1 / 2\<bar>
                    \<longrightarrow> k = \<lfloor>60 * v + 1 / 2\<rfloor>)
               \<and> (60 * v \<le> 2 ^ 20 \<longrightarrow>
                    \<lfloor>60 * v + 1 / 2 - 1 / 2 ^ 30\<rfloor> \<le> k \<and> k \<le> \<lfloor>60 * v + 1 / 2 + 1 / 2 ^ 30\<rfloor>)"
    if "v \<le> 2 ^ 990"
  proof -
    from decimal_minutes_error[OF v0 that] obtain p where
      p: "times60 (fl v) = Num p" "\<bar>p - 60 * v\<bar> \<le> 60 * v / 2 ^ 51 + 1 / 2 ^ 1000"
      by blast
    define k where "k = \<lfloor>p + 1 / 2\<rfloor>"
    have k1: "of_int k - 1 / 2 \<le> p" unfolding k_def by linarith
    have k2: "p < of_int k + 1 / 2" unfolding k_def by linarith
    have r: "parseDuration (d @ ''.'' @ f @ ''h'') = Inr (Num (of_int k))"
      unfolding pd0 p(1) k_def by simp
    have tie: "k = \<lfloor>60 * v + 1 / 2\<rfloor>"
      if "60 * v / 2 ^ 51 + 1 / 2 ^ 1000 < \<bar>frac (60 * v) - 1 / 2\<bar>"
      unfolding k_def using p(2) that by (rule round_away_from_tie)
    have br: "\<lfloor>60 * v + 1 / 2 - 1 / 2 ^ 30\<rfloor> \<le> k \<and> k \<le> \<lfloor>60 * v + 1 / 2 + 1 / 2 ^ 30\<rfloor>"
      if "60 * v \<le> 2 ^ 20"
    proof -
      define eps :: rat where "eps = 60 * v / 2 ^ 51 + 1 / 2 ^ 1000"
      have "60 * v / 2 ^ 51 \<le> 2 ^ 20 / 2 ^ 51" using that by (intro divide_right_mono) simp_all
      then have "60 * v / 2 ^ 51 \<le> 1 / 2 ^ 31" by simp
      moreover have "(1::rat) / 2 ^ 1000 \<le> 1 / 2 ^ 31" by simp
      moreover have "(1::rat) / 2 ^ 31 + 1 / 2 ^ 31 = 1 / 2 ^ 30" by simp
      ultimately have "eps \<le> 1 / 2 ^ 30" unfolding eps_def by linarith
      moreover have "\<bar>p - 60 * v\<bar> \<le> eps" using p(2) by (simp only: eps_def)
      ultimately have close: "\<bar>p - 60 * v\<bar> \<le> 1 / 2 ^ 30" by linarith
      have lo: "\<lfloor>60 * v + 1 / 2 - 1 / 2 ^ 30\<rfloor> \<le> \<lfloor>p + 1 / 2\<rfloor>"
        using close by (intro floor_mono) linarith
      have hi: "\<lfloor>p + 1 / 2\<rfloor> \<le> \<lfloor>60 * v + 1 / 2 + 1 / 2 ^ 30\<rfloor>"
        using close by (intro floor_mono) linarith
      show ?thesis using lo hi by (simp add: k_def)
    qed
    show ?thesis
      unfolding pf using p r k1 k2 tie br by blast
  qed
  have dy: "parseDuration (d @ ''.'' @ f @ ''h'') = Inr (Num (of_int \<lfloor>60 * v + 1 / 2\<rfloor>))"
    if "v = of_int a / 2 ^ j \<and> 0 \<le> a \<and> 60 * a < 2 ^ 53 \<and> j \<le> 1074"
  proof -
    from that have t: "v = of_int a / 2 ^ j" "0 \<le> a" "60 * a < 2 ^ 53" "j \<le> 1074" by simp_all
    have "times60 (fl v) = Num (60 * v)" unfolding t(1) using t(2,3,4) by (rule times60_dyadic)
    then show ?thesis unfolding pd0 by simp
  qed
  have un: "parseDuration s = Inl (InvalidDuration s)" if "\<not> recognized (trim (toLowerCase s))"
    using that by (rule parseDuration_unrecognized)
  have ch: "parseDuration s = Inl (InvalidDuration s)"
    if "\<exists>c\<in>set (trim (toLowerCase s)). \<not> is_digit c \<and> c \<notin> {CHR ''.'', CHR ''h'', CHR ''m''}"
    using that recognized_chars[of "trim (toLowerCase s)"] by (intro un) blast
  have msg: "message (InvalidDuration s)
            = ''Invalid duration format: '' @ s @ ''. Use formats like: 1h, 30m, 1h30m, 1.5h, or 90''"
    by simp
  show ?thesis
    apply (intro conjI impI)
    subgoal using plain by simp
    subgoal using mins by simp
    subgoal using hours by simp
    subgoal using hm by simp
    subgoal by (rule pf)
    subgoal by (rule pd)
    subgoal using dec by simp
    subgoal using dy by simp
    subgoal using un by simp
    subgoal using ch by simp
    subgoal by (rule msg)
    done
qed

lemma text_eqs:
  "''90'' @ ''m'' = ''90m''" "''2'' @ ''h'' = ''2h''" "''1'' @ ''h'' @ ''30'' @ ''m'' = ''1h30m''"
  "''1'' @ ''.'' @ ''5'' @ ''h'' = ''1.5h''" "''0'' @ ''.'' @ ''125'' @ ''h'' = ''0.125h''"
  "''1'' @ ''.'' @ ''1'' @ ''h'' = ''1.1h''"
  by simp_all

theorem parseDuration_forms_witness:
  "all_digits ''90'' \<and> all_digits ''2'' \<and> all_digits ''1'' \<and> all_digits ''30'' \<and> all_digits ''5''
   \<and> all_digits ''0'' \<and> all_digits ''125''
   \<and> parseDuration ''90'' = Inr (Num 90)
   \<and> parseDuration ''90m'' = Inr (Num 90)
   \<and> parseDuration ''2h'' = Inr (Num 120)
   \<and> parseDuration ''1h30m'' = Inr (Num 90)
   \<and> parseDuration ''1.5h'' = Inr (Num 90)
   \<and> parseDuration ''0.125h'' = Inr (Num 8)
   \<and> parseDuration ''1.1h'' = Inr (Num 66)
   \<and> parseDuration ''abc'' = Inl (InvalidDuration ''abc'')"
proof -
  have ad: "all_digits ''90''" "all_digits ''2''" "all_digits ''1''" "all_digits ''30''"
    "all_digits ''5''" "all_digits ''0''" "all_digits ''125''"
    by (simp_all add: all_digits_def is_digit_def code_def)
  have dv: "digits_val ''90'' = 90" "digits_val ''2'' = 2" "digits_val ''1'' = 1"
    "digits_val ''30'' = 30" "digits_val ''5'' = 5" "digits_val ''0'' = 0"
    "digits_val ''125'' = 125"
    by (simp_all add: digits_val_def code_def)
  have v1: "(3 / 2 :: rat) = of_int (digits_val ''1'') + of_int (digits_val ''5'') / 10 ^ length ''5''"
    by (simp add: dv)
  have v2: "(1 / 8 :: rat) = of_int (digits_val ''0'') + of_int (digits_val ''125'') / 10 ^ length ''125''"
    by (simp add: dv)
  have v3: "(11 / 10 :: rat) = of_int (digits_val ''1'') + of_int (digits_val ''1'') / 10 ^ length ''1''"
    by (simp add: dv)
  have nm: "trim (toLowerCase ''abc'') = ''abc''"
    by (simp add: trim_def toLowerCase_def is_upper_def is_space_def code_def)
  have bad: "\<exists>c\<in>set (trim (toLowerCase ''abc'')). \<not> is_digit c \<and> c \<notin> {CHR ''.'', CHR ''h'', CHR ''m''}"
    unfolding nm by (simp add: is_digit_def code_def)
  note w1 = parseDuration_forms[OF ad(1) ad(3) ad(4) ad(3) ad(5) v1,
      where a = 3 and j = 1 and s = "''abc''", unfolded dv]
  note w2 = parseDuration_forms[OF ad(2) ad(3) ad(4) ad(6) ad(7) v2,
      where a = 1 and j = 3 and s = "''abc''", unfolded dv]
  note w3 = parseDuration_forms[OF ad(2) ad(3) ad(4) ad(3) ad(3) v3,
      where a = 0 and j = 0 and s = "''abc''", unfolded dv]
  have a: "parseDuration ''90'' = Inr (Num 90)" "parseDuration (''90'' @ ''m'') = Inr (Num 90)"
    using w1 by simp_all
  have b: "parseDuration (''2'' @ ''h'') = Inr (Num 120)" using w2 by simp
  have c: "parseDuration (''1'' @ ''h'' @ ''30'' @ ''m'') = Inr (Num 90)" using w1 by simp
  have e: "parseDuration ''abc'' = Inl (InvalidDuration ''abc'')" using w1 bad by blast
  have d1: "parseDuration (''1'' @ ''.'' @ ''5'' @ ''h'') = Inr (Num 90)"
  proof -
    have "(3 / 2 :: rat) = of_int 3 / 2 ^ 1 \<and> (0::int) \<le> 3 \<and> 60 * (3::int) < 2 ^ 53 \<and> (1::nat) \<le> 1074"
      by simp
    with w1 have "parseDuration (''1'' @ ''.'' @ ''5'' @ ''h'')
        = Inr (Num (of_int \<lfloor>60 * (3 / 2 :: rat) + 1 / 2\<rfloor>))"
      by blast
    moreover have "\<lfloor>60 * (3 / 2 :: rat) + 1 / 2\<rfloor> = 90" by (simp add: floor_eq_iff)
    ultimately show ?thesis by simp
  qed
  have d2: "parseDuration (''0'' @ ''.'' @ ''125'' @ ''h'') = Inr (Num 8)"
  proof -
    have "(1 / 8 :: rat) = of_int 1 / 2 ^ 3 \<and> (0::int) \<le> 1 \<and> 60 * (1::int) < 2 ^ 53 \<and> (3::nat) \<le> 1074"
      by simp
    with w2 have "parseDuration (''0'' @ ''.'' @ ''125'' @ ''h'')
        = Inr (Num (of_int \<lfloor>60 * (1 / 8 :: rat) + 1 / 2\<rfloor>))"
      by blast
    moreover have "\<lfloor>60 * (1 / 8 :: rat) + 1 / 2\<rfloor> = 8" by (simp add: floor_eq_iff)
    ultimately show ?thesis by simp
  qed
  have d3: "parseDuration (''1'' @ ''.'' @ ''1'' @ ''h'') = Inr (Num 66)"
  proof -
    have le: "(11 / 10 :: rat) \<le> 2 ^ 990"
    proof -
      have "(11 / 10 :: rat) \<le> 2 ^ 1" by simp
      also have "\<dots> \<le> (2::rat) ^ 990" by (intro power_increasing) simp_all
      finally show ?thesis .
    qed
    with w3 obtain p k where k: "parseDuration (''1'' @ ''.'' @ ''1'' @ ''h'') = Inr (Num (of_int k))"
      "60 * (11 / 10) / 2 ^ 51 + 1 / 2 ^ 1000 < \<bar>frac (60 * (11 / 10 :: rat)) - 1 / 2\<bar>
         \<longrightarrow> k = \<lfloor>60 * (11 / 10 :: rat) + 1 / 2\<rfloor>"
      by blast
    have f: "frac (60 * (11 / 10 :: rat)) = 0"
    proof -
      have "60 * (11 / 10 :: rat) = of_int 66" by simp
      then show ?thesis by (simp only: frac_of_int)
    qed
    have "(60 * (11 / 10) / 2 ^ 51 + 1 / 2 ^ 1000 :: rat) < 1 / 2" by simp
    then have "k = \<lfloor>60 * (11 / 10 :: rat) + 1 / 2\<rfloor>" using k(2) unfolding f by simp
    moreover have "\<lfloor>60 * (11 / 10 :: rat) + 1 / 2\<rfloor> = 66" by (simp add: floor_eq_iff)
    ultimately show ?thesis using k(1) by simp
  qed
  show ?thesis using ad a b c d1 d2 d3 e unfolding text_eqs by blast
qed

text \<open>
  The claim C4 as stated says that decimal hours are rounded half-up to the nearest
  minute. 1.025 hours are exactly 61.5 minutes, which half-up rounding takes to 62; the
  double nearest to 1.025 is below it, the product is below 61.5 and \<open>parseDuration\<close>
  returns 61. It also says that plain minutes give the count written: \<open>2 ^ 53 + 1\<close> is
  not a double, and \<open>parseInt\<close> gives \<open>2 ^ 53\<close>.
\<close>

theorem parseDuration_tie_rounds_down:
  "parseDuration ''1.025h'' = Inr (Num 61)
   \<and> decimal_value ''1.025'' * 60 = 61 + 1 / 2
   \<and> \<lfloor>decimal_value ''1.025'' * 60 + 1 / 2\<rfloor> = 62
   \<and> parseDuration ''9007199254740993'' = Inr (Num 9007199254740992)
   \<and> digits_val ''9007199254740993'' = 9007199254740993"
  by code_simp

text \<open>
  Claim C10. For the empty text and for any text of white space only, \<open>parseDuration\<close>
  returns 0 minutes: the trimmed text is empty, and the pattern of hours and minutes,
  whose two parts are optional, matches it.
\<close>

theorem parseDuration_blank_zero:
  assumes "list_all is_space duration"
  shows "parseDuration duration = Inr (Num 0)"
proof -
  have sp: "\<And>c. c \<in> set duration \<Longrightarrow> is_space c" using assms by (simp add: list_all_iff)
  have fixed: "\<And>c. is_space c \<Longrightarrow> \<not> is_upper c \<and> \<not> 192 \<le> code c"
    by (auto simp: is_space_def is_upper_def)
  have l: "toLowerCase duration = duration"
    unfolding toLowerCase_def using sp fixed by (intro map_idI) simp
  have dw: "dropWhile is_space duration = []" using assms by (induction duration) auto
  have n: "trim (toLowerCase duration) = []" unfolding trim_def l dw by simp
  have a: "\<not> all_digits []" by (simp add: all_digits_def)
  have b: "decimal_hours_match [] = None" by (simp add: decimal_hours_match_def)
  have c: "hours_minutes_match [] = Some (None, None)" by (simp add: hours_minutes_match_def)
  show ?thesis
    by (simp add: parseDuration_def n a b c or_zero_def truthy_def parseInt_zero fl_zero)
qed

theorem parseDuration_blank_zero_witness:
  "list_all is_space [] \<and> parseDuration [] = Inr (Num 0)
   \<and> list_all is_space ''   '' \<and> parseDuration ''   '' = Inr (Num 0)"
proof -
  have a: "list_all is_space []" "list_all is_space ''   ''"
    by (simp_all add: is_space_def code_def)
  show ?thesis
    using a parseDuration_blank_zero[OF a(1)] parseDuration_blank_zero[OF a(2)] by blast
qed

section \<open>Facts about the sanitization of texts\<close>

lemma remove_triple_absent: "a \<notin> set s \<Longrightarrow> remove_triple a b c s = s"
  by (induction a b c s rule: remove_triple.induct) auto

lemma set_remove_triple: "set (remove_triple a b c s) \<subseteq> set s"
  by (induction a b c s rule: remove_triple.induct) auto

lemma length_sanitizeInput: "length (sanitizeInput x) \<le> 1000"
  by (simp add: sanitizeInput_def)

lemma sanitizeInput_no_dangerous: "list_all (\<lambda>c. \<not> dangerous_char c) (sanitizeInput x)"
proof -
  have "set (sanitizeInput x) \<subseteq> set (filter (\<lambda>c. \<not> dangerous_char c) (trim x))"
    unfolding sanitizeInput_def
    by (meson set_take_subset set_remove_triple subset_trans)
  then show ?thesis by (auto simp: list_all_iff)
qed

lemma sanitizeInput_fixed:
  assumes "trim y = y" and "length y \<le> 1000" and "list_all (\<lambda>c. \<not> dangerous_char c) y"
    and "list_all (\<lambda>c. \<not> control_char c) y"
  shows "sanitizeInput y = y"
proof -
  have f: "filter (\<lambda>c. \<not> dangerous_char c) y = y"
    using assms(3) by (simp add: list_all_iff)
  have "control_char (CHR 0x00)" "control_char (CHR 0x7F)"
    by (simp_all add: control_char_def code_def)
  then have n: "CHR 0x00 \<notin> set y" "CHR 0x7F \<notin> set y"
    using assms(4) by (auto simp: list_all_iff)
  show ?thesis
    using assms(2) by (simp add: sanitizeInput_def assms(1) f remove_triple_absent n)
qed

text \<open>
  Claim C5, as amended. \<open>sanitizeInput\<close> is a function of its argument alone. It returns
  a text unchanged when the text is already clean: no white space at either end, at most
  1000 characters, none of the six characters it deletes and no control character. Its
  own result need not be clean; sanitizing twice gives the same as sanitizing once
  whenever the first result has no white space at either end and no control character.
\<close>

theorem sanitizeInput_idempotent_when_clean:
  "(trim y = y \<and> length y \<le> 1000 \<and> list_all (\<lambda>c. \<not> dangerous_char c) y
      \<and> list_all (\<lambda>c. \<not> control_char c) y \<longrightarrow> sanitizeInput y = y)
   \<and> (trim (sanitizeInput x) = sanitizeInput x
      \<and> list_all (\<lambda>c. \<not> control_char c) (sanitizeInput x)
      \<longrightarrow> sanitizeInput (sanitizeInput x) = sanitizeInput x)"
  using sanitizeInput_fixed[of y]
    sanitizeInput_fixed[of "sanitizeInput x", OF _ length_sanitizeInput sanitizeInput_no_dangerous]
  by blast

lemma sanitize_examples:
  "sanitizeInput ''Fix <b>login</b> bug  '' = ''Fix blogin/b bug''"
  "sanitizeInput ''< a'' = '' a''" "sanitizeInput '' a'' = ''a''"
  by (simp_all add: sanitizeInput_def trim_def is_space_def dangerous_char_def code_def)

theorem sanitizeInput_idempotent_when_clean_witness:
  "trim ''Fix blogin/b bug'' = ''Fix blogin/b bug'' \<and> length ''Fix blogin/b bug'' \<le> 1000
   \<and> list_all (\<lambda>c. \<not> dangerous_char c) ''Fix blogin/b bug''
   \<and> list_all (\<lambda>c. \<not> control_char c) ''Fix blogin/b bug''
   \<and> sanitizeInput ''Fix blogin/b bug'' = ''Fix blogin/b bug''
   \<and> sanitizeInput ''Fix <b>login</b> bug  '' = ''Fix blogin/b bug''
   \<and> sanitizeInput (sanitizeInput ''Fix <b>login</b> bug  '') = sanitizeInput ''Fix <b>login</b> bug  ''"
proof -
  have a: "trim ''Fix blogin/b bug'' = ''Fix blogin/b bug''"
    by (simp add: trim_def is_space_def code_def)
  have b: "list_all (\<lambda>c. \<not> dangerous_char c) ''Fix blogin/b bug''"
    by (simp add: dangerous_char_def code_def)
  have c: "list_all (\<lambda>c. \<not> control_char c) ''Fix blogin/b bug''"
    by (simp add: control_char_def code_def)
  have d: "length ''Fix blogin/b bug'' \<le> 1000" by simp
  note w1 = sanitizeInput_idempotent_when_clean[of "''Fix blogin/b bug''" "''Fix <b>login</b> bug  ''",
      unfolded sanitize_examples(1)]
  show ?thesis using w1 a b c d sanitize_examples(1) by simp
qed

text \<open>
  The claim C5 as stated says that sanitizing twice always gives the same as sanitizing
  once. \<open>sanitizeInput\<close> trims before it deletes characters, so deleting a character can
  leave white space at the start: the text "< a" becomes " a", and that becomes "a".
\<close>

theorem sanitizeInput_not_idempotent:
  "sanitizeInput ''< a'' = '' a'' \<and> sanitizeInput (sanitizeInput ''< a'') = ''a''
   \<and> sanitizeInput (sanitizeInput ''< a'') \<noteq> sanitizeInput ''< a''"
  by (simp add: sanitize_examples)













text \<open>
  The patterns carry the flag \<open>g\<close> and are shared by all calls, so \<open>test\<close> leaves
  \<open>lastIndex\<close> behind after a match. A second call with the same dangerous text starts
  its search at the end of the earlier match, finds nothing and accepts the text.
\<close>

lemma securelyProcessInput_stale_lastIndex:
  "fst (securelyProcessInput DANGEROUS_PATTERNS ''javascript:'' MAX_DESCRIPTION_LENGTH)
     = Inl InvalidInput
   \<and> fst (securelyProcessInput
            (snd (securelyProcessInput DANGEROUS_PATTERNS ''javascript:'' MAX_DESCRIPTION_LENGTH))
            ''javascript:'' MAX_DESCRIPTION_LENGTH)
     = Inr ''javascript:''"
proof -
  let ?stale = "[\<lparr>pat = Script, lastIndex = 0\<rparr>, \<lparr>pat = Literal ''javascript:'', lastIndex = 11\<rparr>,
               \<lparr>pat = Handler, lastIndex = 0\<rparr>, \<lparr>pat = Literal ''data:text/html'', lastIndex = 0\<rparr>,
               \<lparr>pat = Literal ''vbscript:'', lastIndex = 0\<rparr>]"
  have a: "test_patterns DANGEROUS_PATTERNS ''javascript:'' = (True, ?stale)"
    by code_simp
  have b: "fst (test_patterns ?stale ''javascript:'') = False"
    by code_simp
  have c: "trim (strip_control ''javascript:'') = ''javascript:''"
    by code_simp
  have l: "\<not> MAX_DESCRIPTION_LENGTH < length ''javascript:''"
    by (simp add: MAX_DESCRIPTION_LENGTH_def)
  have 1: "securelyProcessInput DANGEROUS_PATTERNS ''javascript:'' MAX_DESCRIPTION_LENGTH
             = (Inl InvalidInput, ?stale)"
    unfolding securelyProcessInput_def validateSecureInput_def c Let_def a using l by simp
  have 2: "fst (securelyProcessInput ?stale ''javascript:'' MAX_DESCRIPTION_LENGTH) = Inr ''javascript:''"
    unfolding securelyProcessInput_def validateSecureInput_def c Let_def using l b
    by (cases "test_patterns ?stale ''javascript:''") simp
  show ?thesis unfolding 1 using 2 by simp
qed

end
